theory Spec2Isabelle
  imports Complex_Main
begin

section \<open>JavaScript strings\<close>

text \<open>
  A JavaScript string is a sequence of UTF-16 code units; \<open>length\<close>, the regular
  expressions (none of them has the \<open>u\<close> flag) and \<open>trim\<close> all work on code units.
  A code unit is modelled by its number, so that the bullet U+2022 of the patterns is
  the single unit 8226. \<open>str\<close> turns an ASCII literal into such a string.
\<close>

type_synonym jschar = nat
type_synonym jsstring = "nat list"

definition str :: "string \<Rightarrow> jsstring" where
  "str s = map of_char s"

abbreviation NL :: jschar where "NL \<equiv> 10"
abbreviation BULLET :: jschar where "BULLET \<equiv> 8226"
abbreviation BT :: jschar where "BT \<equiv> 96"
abbreviation COLON :: jschar where "COLON \<equiv> 58"
abbreviation DASH :: jschar where "DASH \<equiv> 45"
abbreviation ASTERISK :: jschar where "ASTERISK \<equiv> 42"
abbreviation HASH :: jschar where "HASH \<equiv> 35"
abbreviation FULLSTOP :: jschar where "FULLSTOP \<equiv> 46"
abbreviation SLASH :: jschar where "SLASH \<equiv> 47"

definition is_line_terminator :: "jschar \<Rightarrow> bool" where
  \<comment> \<open>ECMAScript LineTerminator: LF, CR, LS, PS.\<close>
  "is_line_terminator c \<longleftrightarrow> c = 10 \<or> c = 13 \<or> c = 8232 \<or> c = 8233"

definition is_space :: "jschar \<Rightarrow> bool" where
  \<comment> \<open>The class \<open>\s\<close>, which is also what \<open>trim\<close> strips: WhiteSpace and LineTerminator.\<close>
  "is_space c \<longleftrightarrow>
     (9 \<le> c \<and> c \<le> 13) \<or> c = 32 \<or> c = 160 \<or> c = 5760 \<or> (8192 \<le> c \<and> c \<le> 8202) \<or>
     c = 8232 \<or> c = 8233 \<or> c = 8239 \<or> c = 8287 \<or> c = 12288 \<or> c = 65279"

definition is_digit :: "jschar \<Rightarrow> bool" where
  \<comment> \<open>The class \<open>\d\<close>.\<close>
  "is_digit c \<longleftrightarrow> 48 \<le> c \<and> c \<le> 57"

definition canon :: "jschar \<Rightarrow> jschar" where
  \<comment> \<open>Canonicalize of a pattern with the \<open>i\<close> flag and without \<open>u\<close>, on the code units
      that can meet a character of this program's patterns: an ASCII letter goes to its
      upper case. (A unit from 128 on is never canonicalized to an ASCII one, and only the
      bullet itself is canonicalized to the bullet.)\<close>
  "canon c = (if 97 \<le> c \<and> c \<le> 122 then c - 32 else c)"

definition trim :: "jsstring \<Rightarrow> jsstring" where
  "trim s = rev (dropWhile is_space (rev (dropWhile is_space s)))"

fun split_on :: "jschar \<Rightarrow> jsstring \<Rightarrow> jsstring list" where
  \<comment> \<open>\<open>s.split(sep)\<close> for a separator of one code unit.\<close>
  "split_on sep [] = [[]]"
| "split_on sep (c # cs) =
     (if c = sep then [] # split_on sep cs
      else (case split_on sep cs of [] \<Rightarrow> [[c]] | x # xs \<Rightarrow> (c # x) # xs))"

definition js_includes :: "jsstring \<Rightarrow> jschar \<Rightarrow> bool" where
  \<comment> \<open>\<open>s.includes(c)\<close> for a string of one code unit.\<close>
  "js_includes s c \<longleftrightarrow> c \<in> set s"

section \<open>Regular expressions\<close>

text \<open>
  The patterns of \<open>parseEvaluationResponse\<close> are kept as syntax trees and run by a
  backtracking matcher that follows the ECMAScript semantics: alternatives are tried in
  order, a greedy quantifier tries the longer match first and a lazy one the shorter, a
  lookahead is tried once and not re-entered. Every \<open>*\<close> and \<open>+\<close> of the program stands on
  a single-character atom, so they take a character class; \<open>x{1,2}\<close> is written
  \<open>Seq x (Opt x)\<close>.
\<close>

datatype cls =
    CLit jschar           \<comment> \<open>one literal character\<close>
  | CSet "jschar list"    \<comment> \<open>\<open>[...]\<close> of literal characters\<close>
  | CSpace                \<comment> \<open>\<open>\s\<close>\<close>
  | CDigit                \<comment> \<open>\<open>\d\<close>\<close>
  | CDot                  \<comment> \<open>\<open>.\<close> (no \<open>s\<close> flag)\<close>
  | CAny                  \<comment> \<open>\<open>[\s\S]\<close>\<close>

datatype regex =
    Eps
  | Chr cls
  | Seq regex regex
  | Alt regex regex
  | Opt regex             \<comment> \<open>\<open>r?\<close>\<close>
  | Star cls              \<comment> \<open>\<open>c*\<close>\<close>
  | Plus cls              \<comment> \<open>\<open>c+\<close>\<close>
  | LazyStar cls          \<comment> \<open>\<open>c*?\<close>\<close>
  | LazyPlus cls          \<comment> \<open>\<open>c+?\<close>\<close>
  | Group regex           \<comment> \<open>the capturing group \<open>(r)\<close>; no pattern has more than one\<close>
  | Ahead regex           \<comment> \<open>\<open>(?=r)\<close>\<close>
  | NotAhead regex        \<comment> \<open>\<open>(?!r)\<close>\<close>
  | NotBehind cls         \<comment> \<open>\<open>(?<!c)\<close>\<close>
  | Bol                   \<comment> \<open>\<open>^\<close>\<close>
  | Eol                   \<comment> \<open>\<open>$\<close>\<close>

datatype regexp = RegExp regex string   \<comment> \<open>\<open>/pattern/flags\<close>\<close>

fun lit :: "string \<Rightarrow> regex" where
  \<comment> \<open>A run of literal characters of a pattern.\<close>
  "lit [] = Eps"
| "lit [c] = Chr (CLit (of_char c))"
| "lit (c # cs) = Seq (Chr (CLit (of_char c))) (lit cs)"

fun seqs :: "regex list \<Rightarrow> regex" where
  "seqs [] = Eps"
| "seqs [r] = r"
| "seqs (r # rs) = Seq r (seqs rs)"

fun alts :: "regex list \<Rightarrow> regex" where
  "alts [] = Eps"
| "alts [r] = r"
| "alts (r # rs) = Alt r (alts rs)"

definition has_flag :: "string \<Rightarrow> char \<Rightarrow> bool" where
  "has_flag fl f \<longleftrightarrow> f \<in> set fl"

definition eq_char :: "string \<Rightarrow> jschar \<Rightarrow> jschar \<Rightarrow> bool" where
  "eq_char fl a b \<longleftrightarrow> (if has_flag fl CHR ''i'' then canon a = canon b else a = b)"

fun cls_ok :: "string \<Rightarrow> cls \<Rightarrow> jschar \<Rightarrow> bool" where
  "cls_ok fl (CLit a) c = eq_char fl a c"
| "cls_ok fl (CSet as) c = list_ex (\<lambda>a. eq_char fl a c) as"
| "cls_ok fl CSpace c = is_space c"
| "cls_ok fl CDigit c = is_digit c"
| "cls_ok fl CDot c = (\<not> is_line_terminator c)"
| "cls_ok fl CAny c = True"

text \<open>
  The matcher runs a stack of frames (the continuation) on the rest of the input. Its
  state is the code unit before the current position (\<open>None\<close> at the start of the input),
  the rest of the input and the text of group 1, if it has been set. \<open>Close s0\<close> ends the
  group that was opened when the rest was \<open>s0\<close>.
\<close>

datatype frame = Match regex | Close jsstring

fun rsize :: "regex \<Rightarrow> nat" where
  "rsize (Seq a b) = Suc (rsize a + rsize b)"
| "rsize (Alt a b) = Suc (rsize a + rsize b)"
| "rsize (Opt a) = Suc (rsize a)"
| "rsize (Plus c) = 3"
| "rsize (LazyPlus c) = 3"
| "rsize (Group a) = Suc (Suc (rsize a))"
| "rsize (Ahead a) = Suc (rsize a)"
| "rsize (NotAhead a) = Suc (rsize a)"
| "rsize r = 1"

fun fsize :: "frame \<Rightarrow> nat" where
  "fsize (Match r) = rsize r"
| "fsize (Close s) = 1"

function (sequential) rmatch ::
  "string \<Rightarrow> frame list \<Rightarrow> jschar option \<Rightarrow> jsstring \<Rightarrow> jsstring option
     \<Rightarrow> (jsstring \<times> jsstring option) option" where
  "rmatch fl [] p s cap = Some (s, cap)"
| "rmatch fl (Close s0 # k) p s cap =
     rmatch fl k p s (Some (take (length s0 - length s) s0))"
| "rmatch fl (Match Eps # k) p s cap = rmatch fl k p s cap"
| "rmatch fl (Match (Chr c) # k) p [] cap = None"
| "rmatch fl (Match (Chr c) # k) p (x # xs) cap =
     (if cls_ok fl c x then rmatch fl k (Some x) xs cap else None)"
| "rmatch fl (Match (Seq a b) # k) p s cap = rmatch fl (Match a # Match b # k) p s cap"
| "rmatch fl (Match (Alt a b) # k) p s cap =
     (case rmatch fl (Match a # k) p s cap of
        Some r \<Rightarrow> Some r
      | None \<Rightarrow> rmatch fl (Match b # k) p s cap)"
| "rmatch fl (Match (Opt a) # k) p s cap =
     (case rmatch fl (Match a # k) p s cap of
        Some r \<Rightarrow> Some r
      | None \<Rightarrow> rmatch fl k p s cap)"
| "rmatch fl (Match (Star c) # k) p [] cap = rmatch fl k p [] cap"
| "rmatch fl (Match (Star c) # k) p (x # xs) cap =
     (if cls_ok fl c x then
        (case rmatch fl (Match (Star c) # k) (Some x) xs cap of
           Some r \<Rightarrow> Some r
         | None \<Rightarrow> rmatch fl k p (x # xs) cap)
      else rmatch fl k p (x # xs) cap)"
| "rmatch fl (Match (Plus c) # k) p s cap =
     rmatch fl (Match (Chr c) # Match (Star c) # k) p s cap"
| "rmatch fl (Match (LazyStar c) # k) p [] cap = rmatch fl k p [] cap"
| "rmatch fl (Match (LazyStar c) # k) p (x # xs) cap =
     (case rmatch fl k p (x # xs) cap of
        Some r \<Rightarrow> Some r
      | None \<Rightarrow>
          (if cls_ok fl c x then rmatch fl (Match (LazyStar c) # k) (Some x) xs cap
           else None))"
| "rmatch fl (Match (LazyPlus c) # k) p s cap =
     rmatch fl (Match (Chr c) # Match (LazyStar c) # k) p s cap"
| "rmatch fl (Match (Group a) # k) p s cap = rmatch fl (Match a # Close s # k) p s cap"
| "rmatch fl (Match (Ahead a) # k) p s cap =
     (case rmatch fl [Match a] p s cap of
        None \<Rightarrow> None
      | Some (s', cap') \<Rightarrow> rmatch fl k p s cap')"
| "rmatch fl (Match (NotAhead a) # k) p s cap =
     (case rmatch fl [Match a] p s cap of
        None \<Rightarrow> rmatch fl k p s cap
      | Some r \<Rightarrow> None)"
| "rmatch fl (Match (NotBehind c) # k) p s cap =
     (case p of
        None \<Rightarrow> rmatch fl k p s cap
      | Some x \<Rightarrow> if cls_ok fl c x then None else rmatch fl k p s cap)"
| "rmatch fl (Match Bol # k) p s cap =
     (case p of
        None \<Rightarrow> rmatch fl k p s cap
      | Some x \<Rightarrow>
          if has_flag fl CHR ''m'' \<and> is_line_terminator x then rmatch fl k p s cap
          else None)"
| "rmatch fl (Match Eol # k) p s cap =
     (case s of
        [] \<Rightarrow> rmatch fl k p s cap
      | x # xs \<Rightarrow>
          if has_flag fl CHR ''m'' \<and> is_line_terminator x then rmatch fl k p s cap
          else None)"
  by pat_completeness auto
termination
  by (relation "inv_image (less_than <*lex*> less_than)
        (\<lambda>(fl, k, p, s, cap). (sum_list (map fsize k), length s))") auto


section \<open>The string methods that take a pattern\<close>

text \<open>
  \<open>exec_from\<close> is the search of \<open>RegExp.prototype.exec\<close>: the pattern is tried at the
  current position and then at each later one, up to and including the end of the input.
  It returns the text skipped before the match, the matched text, group 1 (\<open>None\<close> when
  the group took no part) and the text after the match.
\<close>

fun exec_from ::
  "regexp \<Rightarrow> jschar option \<Rightarrow> jsstring
     \<Rightarrow> (jsstring \<times> jsstring \<times> jsstring option \<times> jsstring) option" where
  "exec_from (RegExp r fl) p [] =
     (case rmatch fl [Match r] p [] None of
        Some (s', cap) \<Rightarrow> Some ([], [], cap, s')
      | None \<Rightarrow> None)"
| "exec_from (RegExp r fl) p (x # xs) =
     (case rmatch fl [Match r] p (x # xs) None of
        Some (s', cap) \<Rightarrow> Some ([], take (length (x # xs) - length s') (x # xs), cap, s')
      | None \<Rightarrow>
          (case exec_from (RegExp r fl) (Some x) xs of
             None \<Rightarrow> None
           | Some (pre, mt, cap, rest) \<Rightarrow> Some (x # pre, mt, cap, rest)))"

definition String_match :: "jsstring \<Rightarrow> regexp \<Rightarrow> (jsstring \<times> jsstring option) option" where
  \<comment> \<open>\<open>s.match(re)\<close> for a pattern without the \<open>g\<close> flag: \<open>null\<close>, or the array of the
      matched text (index 0) and group 1 (index 1, \<open>None\<close> for \<open>undefined\<close>).\<close>
  "String_match s re =
     (case exec_from re None s of
        None \<Rightarrow> None
      | Some (pre, mt, cap, rest) \<Rightarrow> Some (mt, cap))"

definition RegExp_test :: "regexp \<Rightarrow> jsstring \<Rightarrow> bool" where
  \<comment> \<open>\<open>re.test(s)\<close> for a pattern without the \<open>g\<close> flag.\<close>
  "RegExp_test re s \<longleftrightarrow> exec_from re None s \<noteq> None"

text \<open>
  With the \<open>g\<close> flag, \<open>match\<close> and \<open>replace\<close> go through the input once: after a match the
  search resumes where the match ended, and one position further when the match was
  empty. The counter is the number of code units of the last match still to pass. The
  pattern always sees the original string, also behind the current position.
\<close>

fun match_all_from :: "regexp \<Rightarrow> nat \<Rightarrow> jschar option \<Rightarrow> jsstring \<Rightarrow> jsstring list" where
  "match_all_from (RegExp r fl) (Suc n) p [] = []"
| "match_all_from (RegExp r fl) (Suc n) p (x # xs) = match_all_from (RegExp r fl) n (Some x) xs"
| "match_all_from (RegExp r fl) 0 p [] =
     (case rmatch fl [Match r] p [] None of
        Some (s', cap) \<Rightarrow> [[]]
      | None \<Rightarrow> [])"
| "match_all_from (RegExp r fl) 0 p (x # xs) =
     (case rmatch fl [Match r] p (x # xs) None of
        None \<Rightarrow> match_all_from (RegExp r fl) 0 (Some x) xs
      | Some (s', cap) \<Rightarrow>
          take (length (x # xs) - length s') (x # xs) #
          match_all_from (RegExp r fl) (length (x # xs) - length s' - 1) (Some x) xs)"

definition String_match_g :: "jsstring \<Rightarrow> regexp \<Rightarrow> jsstring list option" where
  \<comment> \<open>\<open>s.match(re)\<close> for a pattern with the \<open>g\<close> flag: \<open>null\<close> when nothing matches,
      otherwise the array of all matched texts.\<close>
  "String_match_g s re =
     (case match_all_from re 0 None s of
        [] \<Rightarrow> None
      | ms \<Rightarrow> Some ms)"

fun replace_all_from ::
  "regexp \<Rightarrow> jsstring \<Rightarrow> nat \<Rightarrow> jschar option \<Rightarrow> jsstring \<Rightarrow> jsstring" where
  "replace_all_from (RegExp r fl) rep (Suc n) p [] = []"
| "replace_all_from (RegExp r fl) rep (Suc n) p (x # xs) =
     replace_all_from (RegExp r fl) rep n (Some x) xs"
| "replace_all_from (RegExp r fl) rep 0 p [] =
     (case rmatch fl [Match r] p [] None of
        Some (s', cap) \<Rightarrow> rep
      | None \<Rightarrow> [])"
| "replace_all_from (RegExp r fl) rep 0 p (x # xs) =
     (case rmatch fl [Match r] p (x # xs) None of
        None \<Rightarrow> x # replace_all_from (RegExp r fl) rep 0 (Some x) xs
      | Some (s', cap) \<Rightarrow>
          (if length (x # xs) - length s' = 0
           then rep @ x # replace_all_from (RegExp r fl) rep 0 (Some x) xs
           else rep @ replace_all_from (RegExp r fl) rep (length (x # xs) - length s' - 1) (Some x) xs))"

fun String_replace :: "jsstring \<Rightarrow> regexp \<Rightarrow> jsstring \<Rightarrow> jsstring" where
  \<comment> \<open>\<open>s.replace(re, rep)\<close> for a replacement text without \<open>$\<close>: the first match only,
      or every match when the pattern has the \<open>g\<close> flag.\<close>
  "String_replace s (RegExp r fl) rep =
     (if has_flag fl CHR ''g'' then replace_all_from (RegExp r fl) rep 0 None s
      else (case exec_from (RegExp r fl) None s of
              None \<Rightarrow> s
            | Some (pre, mt, cap, rest) \<Rightarrow> pre @ rep @ rest))"

section \<open>Numbers\<close>

text \<open>
  \<open>parseFloat\<close> on the texts the two score patterns capture, \<open>\d+(?:\.\d+)?\<close>: the
  decimal number read from the start of the string, \<open>NaN\<close> when the string does not start
  with a digit. \<open>Num q\<close> stands for the double nearest to \<open>q\<close>; the values 0, 3, 4 and
  4.5 are doubles themselves.
\<close>

datatype jsnumber = Num rat | NaN

fun digits_val :: "jsstring \<Rightarrow> nat \<Rightarrow> nat" where
  "digits_val [] acc = acc"
| "digits_val (d # ds) acc = digits_val ds (10 * acc + (d - 48))"

definition parseFloat :: "jsstring \<Rightarrow> jsnumber" where
  "parseFloat s =
     (let ip = takeWhile is_digit s; r = dropWhile is_digit s in
      if ip = [] then NaN
      else (case r of
              [] \<Rightarrow> Num (of_nat (digits_val ip 0))
            | c # fs \<Rightarrow>
                if c = FULLSTOP
                then (let fp = takeWhile is_digit fs in
                      Num (of_nat (digits_val ip 0) + of_nat (digits_val fp 0) / 10 ^ length fp))
                else Num (of_nat (digits_val ip 0))))"

section \<open>parseEvaluationResponse\<close>

record ParsedEvaluation =
  score :: jsnumber
  strengths :: "jsstring list"
  improvements :: "jsstring list"
  missedPoints :: "jsstring list"
  followUp :: jsstring
  idealResponse :: jsstring

definition initial_result :: ParsedEvaluation where
  "initial_result =
     \<lparr>score = Num 0, strengths = [], improvements = [], missedPoints = [],
      followUp = [], idealResponse = []\<rparr>"

subsection \<open>The score\<close>

definition decimal :: regex where
  \<comment> \<open>\<open>(\d+(?:\.\d+)?)\<close>\<close>
  "decimal = Group (Seq (Plus CDigit) (Opt (Seq (Chr (CLit FULLSTOP)) (Plus CDigit))))"

definition score_label_re :: regexp where
  \<comment> \<open>\<open>/Score:?\s*(\d+(?:\.\d+)?)/i\<close>\<close>
  "score_label_re =
     RegExp (seqs [lit ''Score'', Opt (Chr (CLit COLON)), Star CSpace, decimal]) ''i''"

definition score_of5_re :: regexp where
  \<comment> \<open>\<open>/(\d+(?:\.\d+)?)\s*\/\s*5/i\<close>\<close>
  "score_of5_re =
     RegExp (seqs [decimal, Star CSpace, Chr (CLit SLASH), Star CSpace, lit ''5'']) ''i''"

definition scoreMatch :: "jsstring \<Rightarrow> (jsstring \<times> jsstring option) option" where
  "scoreMatch evaluation =
     (case String_match evaluation score_label_re of
        Some m \<Rightarrow> Some m
      | None \<Rightarrow> String_match evaluation score_of5_re)"

definition extract_score :: "jsstring \<Rightarrow> ParsedEvaluation \<Rightarrow> ParsedEvaluation" where
  \<comment> \<open>\<open>if (scoreMatch) result.score = parseFloat(scoreMatch[1])\<close>; group 1 takes part in
      every match of either pattern, and \<open>parseFloat(undefined)\<close> is \<open>NaN\<close>.\<close>
  "extract_score evaluation result =
     (case scoreMatch evaluation of
        None \<Rightarrow> result
      | Some (m0, None) \<Rightarrow> result\<lparr>score := NaN\<rparr>
      | Some (m0, Some m1) \<Rightarrow> result\<lparr>score := parseFloat m1\<rparr>)"

subsection \<open>The sections\<close>

definition body :: regex where
  \<comment> \<open>\<open>([\s\S]*?)\<close>\<close>
  "body = Group (LazyStar CAny)"

text \<open>
  The table \<open>sections\<close>, one pattern for each key:
  \<^item> \<^verbatim>\<open>/(?:Strengths|Strengths:)\s*([\s\S]*?)(?=Areas for Improvement|Improvements|Areas of Improvement|Key Points Missed|Missed Points|Follow-up|Ideal Response|$)/i\<close>
  \<^item> \<^verbatim>\<open>/(?:Areas for Improvement|Improvements|Areas of Improvement):?\s*([\s\S]*?)(?=Key Points Missed|Missed Points|Follow-up|Ideal Response|$)/i\<close>
  \<^item> \<^verbatim>\<open>/(?:Key Points Missed|Missed Points|Missed Opportunities|Key Points):?\s*([\s\S]*?)(?=Follow-up|Ideal Response|$)/i\<close>
  \<^item> \<^verbatim>\<open>/(?:Follow-up Question|Follow-up):?\s*([\s\S]*?)(?=Ideal Response|$)/i\<close>
  \<^item> \<^verbatim>\<open>/(?:Ideal Response|Example Answer|Model Answer):?\s*([\s\S]*?)(?=$)/i\<close>
\<close>

definition section_re :: "string \<Rightarrow> regexp" where
  "section_re key =
     (if key = ''strengths'' then
        RegExp (seqs [alts [lit ''Strengths'', lit ''Strengths:''], Star CSpace, body,
                      Ahead (alts [lit ''Areas for Improvement'', lit ''Improvements'',
                                   lit ''Areas of Improvement'', lit ''Key Points Missed'',
                                   lit ''Missed Points'', lit ''Follow-up'',
                                   lit ''Ideal Response'', Eol])]) ''i''
      else if key = ''improvements'' then
        RegExp (seqs [alts [lit ''Areas for Improvement'', lit ''Improvements'',
                            lit ''Areas of Improvement''],
                      Opt (Chr (CLit COLON)), Star CSpace, body,
                      Ahead (alts [lit ''Key Points Missed'', lit ''Missed Points'',
                                   lit ''Follow-up'', lit ''Ideal Response'', Eol])]) ''i''
      else if key = ''missedPoints'' then
        RegExp (seqs [alts [lit ''Key Points Missed'', lit ''Missed Points'',
                            lit ''Missed Opportunities'', lit ''Key Points''],
                      Opt (Chr (CLit COLON)), Star CSpace, body,
                      Ahead (alts [lit ''Follow-up'', lit ''Ideal Response'', Eol])]) ''i''
      else if key = ''followUp'' then
        RegExp (seqs [alts [lit ''Follow-up Question'', lit ''Follow-up''],
                      Opt (Chr (CLit COLON)), Star CSpace, body,
                      Ahead (alts [lit ''Ideal Response'', Eol])]) ''i''
      else
        RegExp (seqs [alts [lit ''Ideal Response'', lit ''Example Answer'', lit ''Model Answer''],
                      Opt (Chr (CLit COLON)), Star CSpace, body, Ahead Eol]) ''i'')"

definition section_keys :: "string list" where
  \<comment> \<open>The keys of \<open>sections\<close>, in the order \<open>Object.entries\<close> gives them.\<close>
  "section_keys = [''strengths'', ''improvements'', ''missedPoints'', ''followUp'', ''idealResponse'']"

definition section_content :: "jsstring \<Rightarrow> string \<Rightarrow> jsstring option" where
  \<comment> \<open>\<open>match && match[1] && match[1].trim()\<close>, then \<open>content = match[1].trim()\<close>.\<close>
  "section_content evaluation key =
     (case String_match evaluation (section_re key) of
        None \<Rightarrow> None
      | Some (m0, None) \<Rightarrow> None
      | Some (m0, Some m1) \<Rightarrow>
          if m1 \<noteq> [] \<and> trim m1 \<noteq> [] then Some (trim m1) else None)"

subsection \<open>The list sections\<close>

definition bullet :: cls where
  \<comment> \<open>\<open>[-\<bullet>*]\<close>\<close>
  "bullet = CSet [DASH, BULLET, ASTERISK]"

definition item_end :: regex where
  \<comment> \<open>\<open>(?=(?:\n[-\<bullet>*]|\n\d+\.|\n\n|$))\<close>\<close>
  "item_end =
     Ahead (alts [Seq (Chr (CLit NL)) (Chr bullet),
                  seqs [Chr (CLit NL), Plus CDigit, Chr (CLit FULLSTOP)],
                  Seq (Chr (CLit NL)) (Chr (CLit NL)),
                  Eol])"

definition lead_bullet_re :: regexp where
  \<comment> \<open>\<open>/^\s*[-\<bullet>*]\s*/\<close>\<close>
  "lead_bullet_re = RegExp (seqs [Bol, Star CSpace, Chr bullet, Star CSpace]) []"

definition bullet_item_re :: regexp where
  \<comment> \<open>\<open>/(?:^|\n)[-\<bullet>*]\s+(.+?)(?=(?:\n[-\<bullet>*]|\n\d+\.|\n\n|$))/g\<close>\<close>
  "bullet_item_re =
     RegExp (seqs [Alt Bol (Chr (CLit NL)), Chr bullet, Plus CSpace, Group (LazyPlus CDot),
                   item_end]) ''g''"

definition numbered_item_re :: regexp where
  \<comment> \<open>\<open>/(?:^|\n)\d+\.\s+(.+?)(?=(?:\n[-\<bullet>*]|\n\d+\.|\n\n|$))/g\<close>\<close>
  "numbered_item_re =
     RegExp (seqs [Alt Bol (Chr (CLit NL)), Plus CDigit, Chr (CLit FULLSTOP), Plus CSpace,
                   Group (LazyPlus CDot), item_end]) ''g''"

definition bullet_marker_re :: regexp where
  \<comment> \<open>\<open>/^[-\<bullet>*]\s+/\<close>\<close>
  "bullet_marker_re = RegExp (seqs [Bol, Chr bullet, Plus CSpace]) []"

definition number_marker_re :: regexp where
  \<comment> \<open>\<open>/^\d+\.\s+/\<close>\<close>
  "number_marker_re = RegExp (seqs [Bol, Plus CDigit, Chr (CLit FULLSTOP), Plus CSpace]) []"

definition lead_newlines_re :: regexp where
  \<comment> \<open>\<open>/^\n+/\<close>\<close>
  "lead_newlines_re = RegExp (seqs [Bol, Plus (CLit NL)]) []"

definition only_bullet_re :: regexp where
  \<comment> \<open>\<open>/^[-\<bullet>*]$/\<close>\<close>
  "only_bullet_re = RegExp (seqs [Bol, Chr bullet, Eol]) []"

fun truthy :: "'a option \<Rightarrow> bool" where
  \<comment> \<open>An array is truthy, \<open>null\<close> is not.\<close>
  "truthy None = False"
| "truthy (Some x) = True"

definition cleanedContent :: "jsstring \<Rightarrow> jsstring" where
  "cleanedContent content = trim (String_replace content lead_bullet_re [])"

definition clean_point :: "jsstring \<Rightarrow> jsstring" where
  \<comment> \<open>The function mapped over \<open>matches\<close>.\<close>
  "clean_point point =
     trim (String_replace
             (String_replace (String_replace point bullet_marker_re []) number_marker_re [])
             lead_newlines_re [])"

definition clean_line :: "jsstring \<Rightarrow> jsstring" where
  \<comment> \<open>The function mapped over the lines of method 2.\<close>
  "clean_line point =
     String_replace (String_replace (trim point) bullet_marker_re []) number_marker_re []"

definition split_points :: "jsstring \<Rightarrow> jsstring list" where
  \<comment> \<open>Methods 1 to 3 on the cleaned content.\<close>
  "split_points cleaned =
     (let bulletMatch = String_match_g cleaned bullet_item_re;
          numberedMatch = String_match_g cleaned numbered_item_re in
      if truthy bulletMatch \<or> truthy numberedMatch then
        map clean_point
          ((case bulletMatch of None \<Rightarrow> [] | Some ms \<Rightarrow> ms) @
           (case numberedMatch of None \<Rightarrow> [] | Some ms \<Rightarrow> ms))
      else if js_includes cleaned NL then
        filter (\<lambda>point. length point > 0) (map clean_line (split_on NL cleaned))
      else [cleaned])"

definition filter_points :: "jsstring list \<Rightarrow> jsstring list" where
  "filter_points points =
     filter (\<lambda>point. \<not> RegExp_test only_bullet_re point)
       (filter (\<lambda>point. length point > 1) points)"

definition list_points :: "jsstring \<Rightarrow> jsstring list" where
  \<comment> \<open>What a list section stores for its trimmed content.\<close>
  "list_points content =
     (let cleaned = cleanedContent content;
          points = filter_points (split_points cleaned) in
      if length points > 0 then points
      else [String_replace cleaned bullet_marker_re []])"

subsection \<open>Follow-up and ideal response\<close>

definition lead_asterisks_re :: regexp where
  \<comment> \<open>\<open>/^\s*\*+\s*/\<close>\<close>
  "lead_asterisks_re = RegExp (seqs [Bol, Star CSpace, Plus (CLit ASTERISK), Star CSpace]) []"

definition trail_asterisks_re :: regexp where
  \<comment> \<open>\<open>/\s*\*+\s*$/\<close>\<close>
  "trail_asterisks_re = RegExp (seqs [Star CSpace, Plus (CLit ASTERISK), Star CSpace, Eol]) []"

definition h3_re :: regexp where
  \<comment> \<open>\<open>/^###\s+/\<close>\<close>
  "h3_re = RegExp (seqs [Bol, lit ''###'', Plus CSpace]) []"

definition followUpText :: "jsstring \<Rightarrow> jsstring" where
  "followUpText content =
     String_replace
       (trim (String_replace (String_replace content lead_asterisks_re []) trail_asterisks_re []))
       h3_re []"

definition fence_untagged_re :: regexp where
  \<comment> \<open>\<open>/```\s*\n/g\<close>\<close>
  "fence_untagged_re = RegExp (seqs [lit ''```'', Star CSpace, Chr (CLit NL)]) ''g''"

definition fence_lone_re :: regexp where
  \<comment> \<open>\<open>/^```\s*$/gm\<close>\<close>
  "fence_lone_re = RegExp (seqs [Bol, lit ''```'', Star CSpace, Eol]) ''gm''"

definition stray_backticks_re :: regexp where
  \<comment> \<open>\<open>/^`{1,2}(?!`)/gm\<close>\<close>
  "stray_backticks_re =
     RegExp (seqs [Bol, Seq (Chr (CLit BT)) (Opt (Chr (CLit BT))), NotAhead (Chr (CLit BT))]) ''gm''"

definition fence_midline_re :: regexp where
  \<comment> \<open>\<open>/(?<!\n)```/g\<close>\<close>
  "fence_midline_re = RegExp (seqs [NotBehind (CLit NL), lit ''```'']) ''g''"

definition idealResponseText :: "jsstring \<Rightarrow> jsstring" where
  "idealResponseText content =
     String_replace
       (String_replace
          (String_replace
             (String_replace content fence_untagged_re (str ''```python'' @ [NL]))
             fence_lone_re (str ''```''))
          stray_backticks_re [])
       fence_midline_re (NL # str ''```'')"

subsection \<open>The whole function\<close>

definition extract_section :: "jsstring \<Rightarrow> string \<Rightarrow> ParsedEvaluation \<Rightarrow> ParsedEvaluation" where
  \<comment> \<open>The body of the \<open>forEach\<close> over the entries of \<open>sections\<close>.\<close>
  "extract_section evaluation key result =
     (case section_content evaluation key of
        None \<Rightarrow> result
      | Some content \<Rightarrow>
          if key = ''strengths'' then result\<lparr>strengths := list_points content\<rparr>
          else if key = ''improvements'' then result\<lparr>improvements := list_points content\<rparr>
          else if key = ''missedPoints'' then result\<lparr>missedPoints := list_points content\<rparr>
          else if key = ''followUp'' then result\<lparr>followUp := followUpText content\<rparr>
          else if key = ''idealResponse'' then result\<lparr>idealResponse := idealResponseText content\<rparr>
          else result)"

definition parseEvaluationResponse :: "jsstring \<Rightarrow> ParsedEvaluation" where
  "parseEvaluationResponse evaluation =
     fold (extract_section evaluation) section_keys (extract_score evaluation initial_result)"

section \<open>Evaluation\<close>

lemmas char_defs = str_def has_flag_def eq_char_def canon_def
  is_space_def is_digit_def is_line_terminator_def trim_def js_includes_def

lemmas re_defs = lead_bullet_re_def bullet_def bullet_item_re_def numbered_item_re_def item_end_def
  bullet_marker_re_def number_marker_re_def lead_newlines_re_def only_bullet_re_def
  decimal_def score_label_re_def score_of5_re_def body_def section_re_def
  lead_asterisks_re_def trail_asterisks_re_def h3_re_def fence_untagged_re_def fence_lone_re_def
  stray_backticks_re_def fence_midline_re_def

lemmas fn_defs = cleanedContent_def clean_point_def clean_line_def split_points_def filter_points_def
  list_points_def followUpText_def idealResponseText_def String_match_def String_match_g_def
  RegExp_test_def parseFloat_def scoreMatch_def extract_score_def section_content_def
  extract_section_def parseEvaluationResponse_def section_keys_def initial_result_def

section \<open>The end-to-end scenarios\<close>

text \<open>
  C8. The empty string gives the record of the defaults: score 0, three empty lists and
  two empty strings.
\<close>

theorem parse_empty_string:
  "parseEvaluationResponse [] =
     \<lparr>score = Num 0, strengths = [], improvements = [], missedPoints = [],
      followUp = [], idealResponse = []\<rparr>"
  by (simp add: char_defs re_defs fn_defs)

section \<open>Facts about the matcher\<close>

text \<open>A match consumes a prefix of the input: what the matcher returns is a suffix of it.\<close>

lemma rmatch_suffix:
  "rmatch fl k p s cap = Some (s', cap') \<Longrightarrow> \<exists>u. s = u @ s'"
proof (induction fl k p s cap arbitrary: s' cap' rule: rmatch.induct)
  case (5 fl c k p x xs cap)
  then show ?case by (auto split: if_splits; metis append_Cons)
next
  case (10 fl c k p x xs cap)
  then show ?case by (auto split: if_splits option.splits; metis append_Cons)
next
  case (13 fl c k p x xs cap)
  then show ?case by (auto split: if_splits option.splits; metis append_Cons)
qed (auto split: if_splits option.splits list.splits)

lemma rmatch_take:
  assumes "rmatch fl k p s cap = Some (s', cap')"
  shows "take (length s - length s') s @ s' = s"
proof -
  from rmatch_suffix[OF assms] obtain u where "s = u @ s'" by blast
  then show ?thesis by simp
qed

text \<open>
  What \<open>exec_from\<close> returns splits the input, and the pattern matches the matched text
  where it stands.
\<close>

lemma exec_from_sound:
  "exec_from (RegExp r fl) p s = Some (pre, mt, cap, rest) \<Longrightarrow>
     s = pre @ mt @ rest \<and> (\<exists>q. rmatch fl [Match r] q (mt @ rest) None = Some (rest, cap))"
proof (induction s arbitrary: p pre)
  case Nil
  then have m: "rmatch fl [Match r] p [] None = Some (rest, cap)" and e: "pre = []" "mt = []"
    by (auto split: option.splits)
  from rmatch_suffix[OF m] have "rest = []" by simp
  with m e show ?case by auto
next
  case (Cons x xs)
  show ?case
  proof (cases "rmatch fl [Match r] p (x # xs) None")
    case None
    with Cons.prems obtain pre' where
      e: "exec_from (RegExp r fl) (Some x) xs = Some (pre', mt, cap, rest)" and p: "pre = x # pre'"
      by (auto split: option.splits)
    from Cons.IH[OF e] p show ?thesis by simp
  next
    case (Some a)
    obtain s' c' where a: "a = (s', c')" by (cases a)
    from Some a Cons.prems have eqs: "pre = []" "mt = take (length (x # xs) - length s') (x # xs)"
      "cap = c'" "rest = s'"
      by auto
    from rmatch_take[OF Some[unfolded a]] have "mt @ rest = x # xs"
      using eqs by simp
    with Some a eqs show ?thesis by auto
  qed
qed

text \<open>A greedy star that closes the group takes every character it can.\<close>

lemma star_close:
  "rmatch fl [Match (Star c), Close s0] p s cap =
     Some (dropWhile (cls_ok fl c) s,
           Some (take (length s0 - length (dropWhile (cls_ok fl c) s)) s0))"
  by (induction s arbitrary: p) auto

section \<open>The fields of the result\<close>

text \<open>Each entry of \<open>sections\<close> writes its own field only, and none writes the score.\<close>

lemma score_unchanged:
  "score (fold (extract_section evaluation) ks r) = score r"
  by (induction ks arbitrary: r) (auto simp: extract_section_def split: option.splits)

lemma parse_score:
  "score (parseEvaluationResponse evaluation) = score (extract_score evaluation initial_result)"
  by (simp add: parseEvaluationResponse_def score_unchanged)

lemma extract_score_other:
  "strengths (extract_score evaluation r) = strengths r"
  "improvements (extract_score evaluation r) = improvements r"
  "missedPoints (extract_score evaluation r) = missedPoints r"
  "followUp (extract_score evaluation r) = followUp r"
  "idealResponse (extract_score evaluation r) = idealResponse r"
  by (simp_all add: extract_score_def split: option.splits prod.splits)

lemma extract_section_fields:
  "strengths (extract_section evaluation key r) =
     (case section_content evaluation key of
        None \<Rightarrow> strengths r
      | Some c \<Rightarrow> if key = ''strengths'' then list_points c else strengths r)"
  "improvements (extract_section evaluation key r) =
     (case section_content evaluation key of
        None \<Rightarrow> improvements r
      | Some c \<Rightarrow> if key = ''improvements'' then list_points c else improvements r)"
  "missedPoints (extract_section evaluation key r) =
     (case section_content evaluation key of
        None \<Rightarrow> missedPoints r
      | Some c \<Rightarrow> if key = ''missedPoints'' then list_points c else missedPoints r)"
  "followUp (extract_section evaluation key r) =
     (case section_content evaluation key of
        None \<Rightarrow> followUp r
      | Some c \<Rightarrow> if key = ''followUp'' then followUpText c else followUp r)"
  "idealResponse (extract_section evaluation key r) =
     (case section_content evaluation key of
        None \<Rightarrow> idealResponse r
      | Some c \<Rightarrow> if key = ''idealResponse'' then idealResponseText c else idealResponse r)"
  by (simp_all add: extract_section_def split: option.splits)

lemma parse_strengths:
  "strengths (parseEvaluationResponse evaluation) =
     (case section_content evaluation ''strengths'' of None \<Rightarrow> [] | Some c \<Rightarrow> list_points c)"
  by (simp add: parseEvaluationResponse_def section_keys_def extract_section_fields
        extract_score_other initial_result_def split: option.splits)

lemma parse_improvements:
  "improvements (parseEvaluationResponse evaluation) =
     (case section_content evaluation ''improvements'' of None \<Rightarrow> [] | Some c \<Rightarrow> list_points c)"
  by (simp add: parseEvaluationResponse_def section_keys_def extract_section_fields
        extract_score_other initial_result_def split: option.splits)

lemma parse_missedPoints:
  "missedPoints (parseEvaluationResponse evaluation) =
     (case section_content evaluation ''missedPoints'' of None \<Rightarrow> [] | Some c \<Rightarrow> list_points c)"
  by (simp add: parseEvaluationResponse_def section_keys_def extract_section_fields
        extract_score_other initial_result_def split: option.splits)

lemma parse_followUp:
  "followUp (parseEvaluationResponse evaluation) =
     (case section_content evaluation ''followUp'' of None \<Rightarrow> [] | Some c \<Rightarrow> followUpText c)"
  by (simp add: parseEvaluationResponse_def section_keys_def extract_section_fields
        extract_score_other initial_result_def split: option.splits)

lemma parse_idealResponse:
  "idealResponse (parseEvaluationResponse evaluation) =
     (case section_content evaluation ''idealResponse'' of None \<Rightarrow> [] | Some c \<Rightarrow> idealResponseText c)"
  by (simp add: parseEvaluationResponse_def section_keys_def extract_section_fields
        extract_score_other initial_result_def split: option.splits)

section \<open>The score extractor\<close>

lemma label_45:
  assumes "rmatch ''i'' [Match (seqs [lit ''Score'', Opt (Chr (CLit COLON)), Star CSpace, decimal])] q
             (str ''Score: 4.5'' @ rest) None = Some (rest, cap)"
  shows "cap = Some (str ''4.5'')"
proof -
  from assms have "dropWhile (cls_ok ''i'' CDigit) rest = rest"
    and "cap = Some (take (Suc (Suc (Suc (length rest))) - length (dropWhile (cls_ok ''i'' CDigit) rest))
                 (52 # FULLSTOP # 53 # rest))"
    by (auto simp add: char_defs decimal_def star_close split: if_splits)
  then show ?thesis by (simp add: char_defs)
qed

lemma of5_3:
  assumes "rmatch ''i'' [Match (seqs [decimal, Star CSpace, Chr (CLit SLASH), Star CSpace, lit ''5''])] q
             (str ''3/5'' @ rest) None = Some (rest, cap)"
  shows "cap = Some (str ''3'')"
  using assms by (auto simp add: char_defs decimal_def split: if_splits)

text \<open>
  C3, amended. The score is read from the first match of the pattern with the label
  \<open>Score\<close>, and from the first match of the pattern with \<open>/5\<close> only when the first pattern
  matches nowhere. So the score is 4.5 for every input whose first match of the label
  pattern is the text \<open>Score: 4.5\<close>, and 3 for every input where the label pattern
  matches nowhere and the first match of the other pattern is the text \<open>3/5\<close>.
\<close>

theorem score_first_match:
  "(String_match evaluation score_label_re = Some (m, Some d) \<longrightarrow>
      score (parseEvaluationResponse evaluation) = parseFloat d) \<and>
   (String_match evaluation score_label_re = None \<and>
    String_match evaluation score_of5_re = Some (m, Some d) \<longrightarrow>
      score (parseEvaluationResponse evaluation) = parseFloat d) \<and>
   (String_match evaluation score_label_re = Some (str ''Score: 4.5'', g) \<longrightarrow>
      score (parseEvaluationResponse evaluation) = Num (9 / 2)) \<and>
   (String_match evaluation score_label_re = None \<and>
    String_match evaluation score_of5_re = Some (str ''3/5'', g) \<longrightarrow>
      score (parseEvaluationResponse evaluation) = Num 3)"
proof (intro conjI impI)
  assume "String_match evaluation score_label_re = Some (m, Some d)"
  then show "score (parseEvaluationResponse evaluation) = parseFloat d"
    by (simp add: parse_score extract_score_def scoreMatch_def)
next
  assume "String_match evaluation score_label_re = None \<and>
    String_match evaluation score_of5_re = Some (m, Some d)"
  then show "score (parseEvaluationResponse evaluation) = parseFloat d"
    by (simp add: parse_score extract_score_def scoreMatch_def)
next
  assume h: "String_match evaluation score_label_re = Some (str ''Score: 4.5'', g)"
  then obtain pre rest where
    "exec_from score_label_re None evaluation = Some (pre, str ''Score: 4.5'', g, rest)"
    by (auto simp: String_match_def split: option.splits)
  then obtain q where
    "rmatch ''i'' [Match (seqs [lit ''Score'', Opt (Chr (CLit COLON)), Star CSpace, decimal])] q
       (str ''Score: 4.5'' @ rest) None = Some (rest, g)"
    unfolding score_label_re_def by (blast dest: exec_from_sound)
  then have "g = Some (str ''4.5'')" by (rule label_45)
  with h show "score (parseEvaluationResponse evaluation) = Num (9 / 2)"
    by (simp add: parse_score extract_score_def scoreMatch_def parseFloat_def char_defs)
next
  assume h: "String_match evaluation score_label_re = None \<and>
    String_match evaluation score_of5_re = Some (str ''3/5'', g)"
  then obtain pre rest where
    "exec_from score_of5_re None evaluation = Some (pre, str ''3/5'', g, rest)"
    by (auto simp: String_match_def split: option.splits)
  then obtain q where
    "rmatch ''i'' [Match (seqs [decimal, Star CSpace, Chr (CLit SLASH), Star CSpace, lit ''5''])] q
       (str ''3/5'' @ rest) None = Some (rest, g)"
    unfolding score_of5_re_def by (blast dest: exec_from_sound)
  then have "g = Some (str ''3'')" by (rule of5_3)
  with h show "score (parseEvaluationResponse evaluation) = Num 3"
    by (simp add: parse_score extract_score_def scoreMatch_def parseFloat_def char_defs)
qed

text \<open>The two cases at the inputs \<open>Score: 4.5\<close> and \<open>got 3/5\<close>.\<close>

theorem score_first_match_witness:
  "String_match (str ''Score: 4.5'') score_label_re = Some (str ''Score: 4.5'', Some (str ''4.5'')) \<and>
   score (parseEvaluationResponse (str ''Score: 4.5'')) = Num (9 / 2) \<and>
   String_match (str ''got 3/5'') score_label_re = None \<and>
   String_match (str ''got 3/5'') score_of5_re = Some (str ''3/5'', Some (str ''3'')) \<and>
   score (parseEvaluationResponse (str ''got 3/5'')) = Num 3"
proof -
  have a: "String_match (str ''Score: 4.5'') score_label_re = Some (str ''Score: 4.5'', Some (str ''4.5''))"
    by (simp add: char_defs re_defs String_match_def)
  have b: "String_match (str ''got 3/5'') score_label_re = None"
    by (simp add: char_defs re_defs String_match_def)
  have c: "String_match (str ''got 3/5'') score_of5_re = Some (str ''3/5'', Some (str ''3''))"
    by (simp add: char_defs re_defs String_match_def)
  from a score_first_match[of "str ''Score: 4.5''" _ _ "Some (str ''4.5'')"]
  have "score (parseEvaluationResponse (str ''Score: 4.5'')) = Num (9 / 2)" by blast
  moreover from b c score_first_match[of "str ''got 3/5''" _ _ "Some (str ''3'')"]
  have "score (parseEvaluationResponse (str ''got 3/5'')) = Num 3" by blast
  ultimately show ?thesis using a b c by blast
qed

text \<open>
  An input that contains \<open>Score: 4.5\<close> after an earlier \<open>Score: 1\<close> has the score 1, and
  the input \<open>13/5\<close>, which contains \<open>3/5\<close> and no label, has the score 13.
\<close>

theorem score_not_every_occurrence:
  "score (parseEvaluationResponse (str ''Score: 1 Score: 4.5'')) = Num 1 \<and>
   score (parseEvaluationResponse (str ''Score: 1 Score: 4.5'')) \<noteq> Num (9 / 2) \<and>
   score (parseEvaluationResponse (str ''13/5'')) = Num 13 \<and>
   score (parseEvaluationResponse (str ''13/5'')) \<noteq> Num 3"
  by (simp add: parse_score extract_score_def scoreMatch_def parseFloat_def String_match_def
        initial_result_def char_defs re_defs)

section \<open>The scenario of the four lines\<close>

definition scenario_text :: jsstring where
  "scenario_text =
     str ''Score: 4/5'' @ [NL] @
     str ''Strengths: - Clear explanation - Good example'' @ [NL] @
     str ''Areas for Improvement: Could mention edge cases'' @ [NL] @
     str ''Follow-up: **What about concurrent writes?**''"

lemma scenario_result:
  "parseEvaluationResponse scenario_text =
     \<lparr>score = Num 4,
      strengths = [str '': - Clear explanation - Good example''],
      improvements = [str ''Could mention edge cases''],
      missedPoints = [],
      followUp = str ''What about concurrent writes?'',
      idealResponse = []\<rparr>"
  by (simp add: scenario_text_def char_defs re_defs fn_defs)

text \<open>
  C1, amended. For the text of the four lines the result has the score 4, the one
  improvement \<open>Could mention edge cases\<close>, no missed point, the follow-up
  \<open>What about concurrent writes?\<close> and an empty ideal response; the strengths are a
  single item that ends with \<open>Clear explanation - Good example\<close>, since a dash inside a
  line starts no new item.
\<close>

theorem scenario_parsed:
  "score (parseEvaluationResponse scenario_text) = Num 4 \<and>
   (\<exists>lead. strengths (parseEvaluationResponse scenario_text) =
             [lead @ str ''Clear explanation - Good example'']) \<and>
   improvements (parseEvaluationResponse scenario_text) = [str ''Could mention edge cases''] \<and>
   missedPoints (parseEvaluationResponse scenario_text) = [] \<and>
   followUp (parseEvaluationResponse scenario_text) = str ''What about concurrent writes?'' \<and>
   idealResponse (parseEvaluationResponse scenario_text) = []"
proof -
  have "str '': - Clear explanation - Good example'' =
          str '': - '' @ str ''Clear explanation - Good example''"
    by (simp add: str_def)
  then show ?thesis
    unfolding scenario_result by simp
qed

text \<open>The strengths of the scenario are not the two items \<open>Clear explanation\<close> and \<open>Good example\<close>.\<close>

theorem scenario_strengths_not_split:
  "strengths (parseEvaluationResponse scenario_text) \<noteq>
     [str ''Clear explanation'', str ''Good example'']"
  unfolding scenario_result by simp

section \<open>Bulleted lists\<close>

definition bulleted_text :: jsstring where
  "bulleted_text =
     str ''Improvements:'' @ [NL] @ str ''- a'' @ [NL] @ str ''- b'' @ [NL] @ str ''- c''"

text \<open>
  C2. The section whose captured text is the three bulleted lines \<open>- a\<close>, \<open>- b\<close>, \<open>- c\<close>
  should give the items \<open>a\<close>, \<open>b\<close>, \<open>c\<close>. The code gives two items, \<open>- b\<close> and \<open>- c\<close>:
  the first item is lost with the leading marker, and the markers of the others stay,
  because they are removed at the start of the match, which is the newline before them.
\<close>

theorem three_bullets_points:
  "section_content bulleted_text ''improvements'' =
     Some (str ''- a'' @ [NL] @ str ''- b'' @ [NL] @ str ''- c'') \<and>
   list_points (str ''- a'' @ [NL] @ str ''- b'' @ [NL] @ str ''- c'') = [str ''- b'', str ''- c''] \<and>
   improvements (parseEvaluationResponse bulleted_text) = [str ''- b'', str ''- c'']"
proof -
  have a: "section_content bulleted_text ''improvements'' =
             Some (str ''- a'' @ [NL] @ str ''- b'' @ [NL] @ str ''- c'')"
    by (simp add: bulleted_text_def char_defs re_defs section_content_def String_match_def)
  have b: "list_points (str ''- a'' @ [NL] @ str ''- b'' @ [NL] @ str ''- c'') =
             [str ''- b'', str ''- c'']"
    by (simp add: char_defs re_defs fn_defs)
  from a b show ?thesis by (simp add: parse_improvements)
qed

section \<open>The boundaries of the sections\<close>

definition model_answer_text :: jsstring where
  "model_answer_text = str ''Improvements: be brief'' @ [NL] @ str ''Model Answer: use a lock''"

text \<open>
  C4. No captured body should hold an accepted heading of a later section. \<open>Model Answer\<close>
  is an accepted heading of the ideal response, but no earlier section stops at it: the
  body of the improvements runs over it to the end of the text, and the ideal response
  takes the same text again.
\<close>

theorem body_runs_over_model_answer:
  "section_content model_answer_text ''improvements'' =
     Some (str ''be brief'' @ [NL] @ str ''Model Answer: use a lock'') \<and>
   section_content model_answer_text ''idealResponse'' = Some (str ''use a lock'') \<and>
   improvements (parseEvaluationResponse model_answer_text) =
     [str ''be brief'', str ''Model Answer: use a lock'']"
proof -
  have a: "section_content model_answer_text ''improvements'' =
             Some (str ''be brief'' @ [NL] @ str ''Model Answer: use a lock'')"
    by (simp add: model_answer_text_def char_defs re_defs section_content_def String_match_def)
  have b: "section_content model_answer_text ''idealResponse'' = Some (str ''use a lock'')"
    by (simp add: model_answer_text_def char_defs re_defs section_content_def String_match_def)
  have c: "list_points (str ''be brief'' @ [NL] @ str ''Model Answer: use a lock'') =
             [str ''be brief'', str ''Model Answer: use a lock'']"
    by (simp add: char_defs re_defs fn_defs)
  from a b c show ?thesis by (simp add: parse_improvements)
qed

section \<open>Code fences\<close>

definition fenced_text :: jsstring where
  "fenced_text =
     str ''Ideal Response:'' @ [NL] @ str ''```js'' @ [NL] @ str ''x'' @ [NL] @ str ''```'' @
     [NL] @ str ''end''"

text \<open>
  C5. Only an opening fence without a language should get the tag \<open>python\<close>. The code
  tags every fence that is followed by a newline: the fence that closes the block of
  \<open>fenced_text\<close>, whose opening fence has the tag \<open>js\<close>, comes out as an opening fence
  of its own.
\<close>

theorem closing_fence_tagged:
  "idealResponse (parseEvaluationResponse fenced_text) =
     [NL] @ str ''```js'' @ [NL] @ str ''x'' @ [NL] @ str ''```python'' @ [NL] @ str ''end''"
proof -
  have a: "section_content fenced_text ''idealResponse'' =
             Some (str ''```js'' @ [NL] @ str ''x'' @ [NL] @ str ''```'' @ [NL] @ str ''end'')"
    by (simp add: fenced_text_def char_defs re_defs section_content_def String_match_def)
  have b: "idealResponseText (str ''```js'' @ [NL] @ str ''x'' @ [NL] @ str ''```'' @ [NL] @ str ''end'') =
             [NL] @ str ''```js'' @ [NL] @ str ''x'' @ [NL] @ str ''```python'' @ [NL] @ str ''end''"
    by (simp add: char_defs re_defs fn_defs)
  from a b show ?thesis by (simp add: parse_idealResponse)
qed

section \<open>The post-filter and the fallback\<close>

lemma filter_points_long:
  "point \<in> set (filter_points points) \<Longrightarrow> 1 < length point"
  by (simp add: filter_points_def)

lemma list_points_cases:
  "list_points content =
     (if filter_points (split_points (cleanedContent content)) = []
      then [String_replace (cleanedContent content) bullet_marker_re []]
      else filter_points (split_points (cleanedContent content)))"
  by (simp add: list_points_def Let_def)

lemma asterisk_only:
  "filter_points (split_points (cleanedContent (str ''*''))) = [] \<and> list_points (str ''*'') = [[]]"
  by (simp add: char_defs re_defs fn_defs)

text \<open>
  C6. A list section that has a content never stores an empty list. The post-filter keeps
  only items longer than one code unit (so no item that is a single bullet character);
  when items survive, they are the result; when none does, the result is the single item
  made of the whole cleaned block, with a leading bullet marker removed. A section that
  holds only \<open>*\<close> goes through this fallback.
\<close>

theorem list_section_never_empty:
  "list_points content \<noteq> [] \<and>
   (\<forall>point \<in> set (filter_points points).
      1 < length point \<and> point \<noteq> [DASH] \<and> point \<noteq> [BULLET] \<and> point \<noteq> [ASTERISK]) \<and>
   (filter_points (split_points (cleanedContent content)) \<noteq> [] \<longrightarrow>
      list_points content = filter_points (split_points (cleanedContent content))) \<and>
   (filter_points (split_points (cleanedContent content)) = [] \<longrightarrow>
      list_points content = [String_replace (cleanedContent content) bullet_marker_re []]) \<and>
   (section_content evaluation ''strengths'' = Some content \<longrightarrow>
      strengths (parseEvaluationResponse evaluation) = list_points content) \<and>
   (section_content evaluation ''improvements'' = Some content \<longrightarrow>
      improvements (parseEvaluationResponse evaluation) = list_points content) \<and>
   (section_content evaluation ''missedPoints'' = Some content \<longrightarrow>
      missedPoints (parseEvaluationResponse evaluation) = list_points content) \<and>
   filter_points (split_points (cleanedContent (str ''*''))) = [] \<and>
   list_points (str ''*'') = [[]]"
proof (intro conjI ballI impI)
  show "list_points content \<noteq> []"
    by (simp add: list_points_cases)
next
  fix point assume "point \<in> set (filter_points points)"
  then have "1 < length point" by (rule filter_points_long)
  then show "1 < length point" "point \<noteq> [DASH]" "point \<noteq> [BULLET]" "point \<noteq> [ASTERISK]"
    by auto
next
  assume "filter_points (split_points (cleanedContent content)) \<noteq> []"
  then show "list_points content = filter_points (split_points (cleanedContent content))"
    by (simp add: list_points_cases)
next
  assume "filter_points (split_points (cleanedContent content)) = []"
  then show "list_points content = [String_replace (cleanedContent content) bullet_marker_re []]"
    by (simp add: list_points_cases)
next
  assume "section_content evaluation ''strengths'' = Some content"
  then show "strengths (parseEvaluationResponse evaluation) = list_points content"
    by (simp add: parse_strengths)
next
  assume "section_content evaluation ''improvements'' = Some content"
  then show "improvements (parseEvaluationResponse evaluation) = list_points content"
    by (simp add: parse_improvements)
next
  assume "section_content evaluation ''missedPoints'' = Some content"
  then show "missedPoints (parseEvaluationResponse evaluation) = list_points content"
    by (simp add: parse_missedPoints)
next
  show "filter_points (split_points (cleanedContent (str ''*''))) = []"
    using asterisk_only by simp
next
  show "list_points (str ''*'') = [[]]"
    using asterisk_only by simp
qed

text \<open>The section \<open>*\<close> takes the fallback, the section \<open>ab\<close> keeps its item.\<close>

definition lone_asterisk_text :: jsstring where
  "lone_asterisk_text = str ''Strengths *''"

theorem list_section_never_empty_witness:
  "section_content lone_asterisk_text ''strengths'' = Some (str ''*'') \<and>
   filter_points (split_points (cleanedContent (str ''*''))) = [] \<and>
   strengths (parseEvaluationResponse lone_asterisk_text) = [[]] \<and>
   strengths (parseEvaluationResponse lone_asterisk_text) \<noteq> [] \<and>
   str ''ab'' \<in> set (filter_points [str ''ab'', str ''*'']) \<and> 1 < length (str ''ab'') \<and>
   filter_points (split_points (cleanedContent (str ''ab''))) \<noteq> [] \<and>
   list_points (str ''ab'') = [str ''ab'']"
proof -
  have a: "section_content lone_asterisk_text ''strengths'' = Some (str ''*'')"
    by (simp add: lone_asterisk_text_def char_defs re_defs section_content_def String_match_def)
  have b: "str ''ab'' \<in> set (filter_points [str ''ab'', str ''*''])"
    by (simp add: char_defs re_defs fn_defs)
  have c: "filter_points (split_points (cleanedContent (str ''ab''))) = [str ''ab'']"
    by (simp add: char_defs re_defs fn_defs)
  note t = list_section_never_empty[of "str ''*''" "[str ''ab'', str ''*'']" lone_asterisk_text]
  note u = list_section_never_empty[of "str ''ab''" "[]" "[]"]
  from t a have "strengths (parseEvaluationResponse lone_asterisk_text) = list_points (str ''*'')"
    by blast
  moreover from t have "list_points (str ''*'') = [[]]" by blast
  moreover from t have "filter_points (split_points (cleanedContent (str ''*''))) = []" by blast
  moreover from t b have "1 < length (str ''ab'')" by blast
  moreover from u c have "list_points (str ''ab'') = [str ''ab'']" by simp
  ultimately show ?thesis using a b c by simp
qed

section \<open>Errors at run time\<close>

text \<open>
  Three kinds of statement of the function can throw: the reads \<open>scoreMatch[1]\<close> and
  \<open>match[1]\<close>, which throw when the match is \<open>null\<close>; the call \<open>match[1].trim()\<close>,
  which throws when the group took no part in the match; and the spread of
  \<open>bulletMatch || []\<close> and \<open>numberedMatch || []\<close>, which throws for a value that is
  not iterable. Every other call is a method of a string or of an array. The definitions
  below follow the function statement by statement with these operations as steps that
  can fail, so that an exception is a value \<open>Inl\<close> of the result.
\<close>

datatype js_error = TypeError

definition bind_result :: "js_error + 'a \<Rightarrow> ('a \<Rightarrow> js_error + 'b) \<Rightarrow> js_error + 'b" where
  "bind_result r f = (case r of Inl e \<Rightarrow> Inl e | Inr v \<Rightarrow> f v)"

definition index1 :: "(jsstring \<times> jsstring option) option \<Rightarrow> js_error + jsstring option" where
  \<comment> \<open>\<open>m[1]\<close>: reading a property of \<open>null\<close> throws.\<close>
  "index1 m = (case m of None \<Rightarrow> Inl TypeError | Some (m0, m1) \<Rightarrow> Inr m1)"

definition call_trim :: "jsstring option \<Rightarrow> js_error + jsstring" where
  \<comment> \<open>\<open>v.trim()\<close>: calling a method of \<open>undefined\<close> throws.\<close>
  "call_trim v = (case v of None \<Rightarrow> Inl TypeError | Some s \<Rightarrow> Inr (trim s))"

definition or_empty :: "jsstring list option \<Rightarrow> jsstring list option" where
  \<comment> \<open>\<open>(v || [])\<close>\<close>
  "or_empty v = (case v of None \<Rightarrow> Some [] | Some ms \<Rightarrow> Some ms)"

definition spread :: "jsstring list option \<Rightarrow> js_error + jsstring list" where
  \<comment> \<open>\<open>...v\<close> in an array literal: \<open>null\<close> is not iterable.\<close>
  "spread v = (case v of None \<Rightarrow> Inl TypeError | Some ms \<Rightarrow> Inr ms)"

fun truthy_string :: "jsstring option \<Rightarrow> bool" where
  \<comment> \<open>\<open>undefined\<close> and the empty string are falsy.\<close>
  "truthy_string None = False"
| "truthy_string (Some s) = (s \<noteq> [])"

definition parseFloat_arg :: "jsstring option \<Rightarrow> jsnumber" where
  \<comment> \<open>\<open>parseFloat(v)\<close>, which is \<open>NaN\<close> for \<open>undefined\<close>.\<close>
  "parseFloat_arg v = (case v of None \<Rightarrow> NaN | Some d \<Rightarrow> parseFloat d)"

definition extract_score_run :: "jsstring \<Rightarrow> ParsedEvaluation \<Rightarrow> js_error + ParsedEvaluation" where
  "extract_score_run evaluation result =
     (if truthy (scoreMatch evaluation)
      then bind_result (index1 (scoreMatch evaluation))
             (\<lambda>m1. Inr (result\<lparr>score := parseFloat_arg m1\<rparr>))
      else Inr result)"

definition split_points_run :: "jsstring \<Rightarrow> js_error + jsstring list" where
  "split_points_run cleaned =
     (let bulletMatch = String_match_g cleaned bullet_item_re;
          numberedMatch = String_match_g cleaned numbered_item_re in
      if truthy bulletMatch \<or> truthy numberedMatch then
        bind_result (spread (or_empty bulletMatch)) (\<lambda>bs.
        bind_result (spread (or_empty numberedMatch)) (\<lambda>ns.
        Inr (map clean_point (bs @ ns))))
      else if js_includes cleaned NL then
        Inr (filter (\<lambda>point. length point > 0) (map clean_line (split_on NL cleaned)))
      else Inr [cleaned])"

definition list_points_run :: "jsstring \<Rightarrow> js_error + jsstring list" where
  "list_points_run content =
     bind_result (split_points_run (cleanedContent content)) (\<lambda>split.
       let points = filter_points split in
       Inr (if length points > 0 then points
            else [String_replace (cleanedContent content) bullet_marker_re []]))"

definition store_section :: "string \<Rightarrow> jsstring \<Rightarrow> ParsedEvaluation \<Rightarrow> js_error + ParsedEvaluation" where
  \<comment> \<open>The branches on \<open>key\<close> for a section with a content.\<close>
  "store_section key content result =
     (if key = ''strengths'' then
        bind_result (list_points_run content) (\<lambda>points. Inr (result\<lparr>strengths := points\<rparr>))
      else if key = ''improvements'' then
        bind_result (list_points_run content) (\<lambda>points. Inr (result\<lparr>improvements := points\<rparr>))
      else if key = ''missedPoints'' then
        bind_result (list_points_run content) (\<lambda>points. Inr (result\<lparr>missedPoints := points\<rparr>))
      else if key = ''followUp'' then Inr (result\<lparr>followUp := followUpText content\<rparr>)
      else if key = ''idealResponse'' then Inr (result\<lparr>idealResponse := idealResponseText content\<rparr>)
      else Inr result)"

definition extract_section_run ::
  "jsstring \<Rightarrow> string \<Rightarrow> ParsedEvaluation \<Rightarrow> js_error + ParsedEvaluation" where
  \<comment> \<open>\<open>if (match && match[1] && match[1].trim()) { const content = match[1].trim(); ... }\<close>\<close>
  "extract_section_run evaluation key result =
     (let match = String_match evaluation (section_re key) in
      if truthy match then
        bind_result (index1 match) (\<lambda>m1.
          if truthy_string m1 then
            bind_result (bind_result (index1 match) call_trim) (\<lambda>t.
              if t \<noteq> [] then
                bind_result (bind_result (index1 match) call_trim) (\<lambda>content.
                  store_section key content result)
              else Inr result)
          else Inr result)
      else Inr result)"

fun for_each :: "('a \<Rightarrow> 'b \<Rightarrow> js_error + 'b) \<Rightarrow> 'a list \<Rightarrow> 'b \<Rightarrow> js_error + 'b" where
  \<comment> \<open>\<open>forEach\<close>: an exception thrown by the callback ends the loop.\<close>
  "for_each f [] r = Inr r"
| "for_each f (x # xs) r = bind_result (f x r) (for_each f xs)"

definition parseEvaluationResponse_run :: "jsstring \<Rightarrow> js_error + ParsedEvaluation" where
  "parseEvaluationResponse_run evaluation =
     bind_result (extract_score_run evaluation initial_result)
       (for_each (extract_section_run evaluation) section_keys)"

text \<open>Every step that can fail stands behind the test that excludes its failure.\<close>

lemma extract_score_run_ok:
  "extract_score_run evaluation result = Inr (extract_score evaluation result)"
  by (auto simp: extract_score_run_def extract_score_def bind_result_def index1_def
        parseFloat_arg_def split: option.splits)

lemma split_points_run_ok:
  "split_points_run cleaned = Inr (split_points cleaned)"
  by (auto simp: split_points_run_def split_points_def bind_result_def spread_def or_empty_def
        Let_def split: option.splits)

lemma list_points_run_ok:
  "list_points_run content = Inr (list_points content)"
  by (simp add: list_points_run_def list_points_def split_points_run_ok bind_result_def Let_def)

lemma store_section_ok:
  "store_section key content result =
     Inr (if key = ''strengths'' then result\<lparr>strengths := list_points content\<rparr>
          else if key = ''improvements'' then result\<lparr>improvements := list_points content\<rparr>
          else if key = ''missedPoints'' then result\<lparr>missedPoints := list_points content\<rparr>
          else if key = ''followUp'' then result\<lparr>followUp := followUpText content\<rparr>
          else if key = ''idealResponse'' then result\<lparr>idealResponse := idealResponseText content\<rparr>
          else result)"
  by (simp add: store_section_def list_points_run_ok bind_result_def)

lemma extract_section_run_ok:
  "extract_section_run evaluation key result = Inr (extract_section evaluation key result)"
proof (cases "String_match evaluation (section_re key)")
  case None
  then show ?thesis
    by (simp add: extract_section_run_def extract_section_def section_content_def)
next
  case (Some a)
  obtain m0 m1 where a: "a = (m0, m1)" by (cases a)
  show ?thesis
  proof (cases m1)
    case None
    with Some a show ?thesis
      by (simp add: extract_section_run_def extract_section_def section_content_def
            bind_result_def index1_def)
  next
    case (Some g)
    show ?thesis
    proof (cases "g \<noteq> [] \<and> trim g \<noteq> []")
      case True
      with \<open>String_match evaluation (section_re key) = Some a\<close> a Some
      have c: "section_content evaluation key = Some (trim g)"
        by (simp add: section_content_def)
      from True \<open>String_match evaluation (section_re key) = Some a\<close> a Some
      have "extract_section_run evaluation key result = store_section key (trim g) result"
        by (simp add: extract_section_run_def bind_result_def index1_def call_trim_def)
      with c show ?thesis
        by (simp add: store_section_ok extract_section_def)
    next
      case False
      with \<open>String_match evaluation (section_re key) = Some a\<close> a Some
      have c: "section_content evaluation key = None"
        by (simp add: section_content_def)
      from False \<open>String_match evaluation (section_re key) = Some a\<close> a Some
      have "extract_section_run evaluation key result = Inr result"
        by (auto simp add: extract_section_run_def bind_result_def index1_def call_trim_def Let_def)
      with c show ?thesis
        by (simp add: extract_section_def)
    qed
  qed
qed

lemma for_each_ok:
  "(\<And>x r. f x r = Inr (g x r)) \<Longrightarrow> for_each f xs r = Inr (fold g xs r)"
  by (induction xs arbitrary: r) (simp_all add: bind_result_def)

lemma parse_run_ok:
  "parseEvaluationResponse_run evaluation = Inr (parseEvaluationResponse evaluation)"
proof -
  have "for_each (extract_section_run evaluation) section_keys r =
          Inr (fold (extract_section evaluation) section_keys r)" for r
    by (rule for_each_ok) (rule extract_section_run_ok)
  then show ?thesis
    by (simp add: parseEvaluationResponse_run_def parseEvaluationResponse_def
          extract_score_run_ok bind_result_def)
qed

text \<open>
  C9. The function throws on no input string: run with its failing steps, it returns
  the record that \<open>parseEvaluationResponse\<close> computes, whatever the input is, and the
  matcher and every search over the input are terminating recursions. A section without
  content (its pattern matches nowhere, or the body it captures is empty or white
  space) leaves its field at the default, and the score stays 0 when neither score
  pattern matches.
\<close>

theorem parse_never_raises:
  "parseEvaluationResponse_run evaluation = Inr (parseEvaluationResponse evaluation) \<and>
   (scoreMatch evaluation = None \<longrightarrow> score (parseEvaluationResponse evaluation) = Num 0) \<and>
   (section_content evaluation ''strengths'' = None \<longrightarrow>
      strengths (parseEvaluationResponse evaluation) = []) \<and>
   (section_content evaluation ''improvements'' = None \<longrightarrow>
      improvements (parseEvaluationResponse evaluation) = []) \<and>
   (section_content evaluation ''missedPoints'' = None \<longrightarrow>
      missedPoints (parseEvaluationResponse evaluation) = []) \<and>
   (section_content evaluation ''followUp'' = None \<longrightarrow>
      followUp (parseEvaluationResponse evaluation) = []) \<and>
   (section_content evaluation ''idealResponse'' = None \<longrightarrow>
      idealResponse (parseEvaluationResponse evaluation) = [])"
  by (simp add: parse_run_ok parse_score parse_strengths parse_improvements parse_missedPoints
        parse_followUp parse_idealResponse extract_score_def initial_result_def)

text \<open>
  A text whose score is not a number, whose strengths are a lone dash, whose follow-up
  is three asterisks and whose ideal response is four backticks.
\<close>

definition malformed_text :: jsstring where
  "malformed_text =
     str ''Score: n/a'' @ [NL] @ str ''Strengths - '' @ [NL] @ str ''Follow-up: ***'' @ [NL] @
     str ''Ideal Response: ````''"

lemma malformed_result:
  "parseEvaluationResponse malformed_text =
     \<lparr>score = Num 0, strengths = [[]], improvements = [], missedPoints = [],
      followUp = [], idealResponse = NL # str ''````''\<rparr>"
  by (simp add: malformed_text_def char_defs re_defs fn_defs)

lemma no_headings_absent:
  "scoreMatch (str ''no headings here'') = None"
  "section_content (str ''no headings here'') ''strengths'' = None"
  "section_content (str ''no headings here'') ''improvements'' = None"
  "section_content (str ''no headings here'') ''missedPoints'' = None"
  "section_content (str ''no headings here'') ''followUp'' = None"
  "section_content (str ''no headings here'') ''idealResponse'' = None"
  by (simp_all add: char_defs re_defs String_match_def scoreMatch_def section_content_def)

lemma malformed_absent:
  "scoreMatch malformed_text = None"
  "section_content malformed_text ''improvements'' = None"
  "section_content malformed_text ''missedPoints'' = None"
  by (simp_all add: malformed_text_def char_defs re_defs String_match_def scoreMatch_def
        section_content_def)

text \<open>
  The malformed text gives a record with the sections it has and the defaults for the
  others, and a text without any heading or score gives the record of the defaults.
\<close>

theorem parse_never_raises_witness:
  "parseEvaluationResponse_run malformed_text =
     Inr \<lparr>score = Num 0, strengths = [[]], improvements = [], missedPoints = [],
          followUp = [], idealResponse = NL # str ''````''\<rparr> \<and>
   scoreMatch malformed_text = None \<and>
   section_content malformed_text ''improvements'' = None \<and>
   section_content malformed_text ''missedPoints'' = None \<and>
   scoreMatch (str ''no headings here'') = None \<and>
   section_content (str ''no headings here'') ''strengths'' = None \<and>
   section_content (str ''no headings here'') ''improvements'' = None \<and>
   section_content (str ''no headings here'') ''missedPoints'' = None \<and>
   section_content (str ''no headings here'') ''followUp'' = None \<and>
   section_content (str ''no headings here'') ''idealResponse'' = None \<and>
   parseEvaluationResponse_run (str ''no headings here'') = Inr initial_result"
proof -
  note m = parse_never_raises[of malformed_text]
  note n = parse_never_raises[of "str ''no headings here''"]
  from m have "parseEvaluationResponse_run malformed_text =
     Inr \<lparr>score = Num 0, strengths = [[]], improvements = [], missedPoints = [],
          followUp = [], idealResponse = NL # str ''````''\<rparr>"
    by (simp only: malformed_result)
  moreover from n no_headings_absent
  have "parseEvaluationResponse (str ''no headings here'') = initial_result"
    by (simp add: initial_result_def)
  with n have "parseEvaluationResponse_run (str ''no headings here'') = Inr initial_result"
    by (simp only:)
  ultimately show ?thesis using no_headings_absent malformed_absent by simp
qed

section \<open>Mixed lists\<close>

lemma filter_points_append:
  "filter_points (xs @ ys) = filter_points xs @ filter_points ys"
  by (simp add: filter_points_def)

text \<open>
  C10, amended. When the cleaned content of a list section has matches of the bullet
  pattern and of the number pattern, the items are the bullet matches in their order and
  then the number matches in their order, each cleaned, and the result is what the
  post-filter leaves of them, in that order (not the order of the document); when the
  filter leaves nothing, the result is the single item of the fallback.
\<close>

theorem mixed_list_bullets_first:
  "String_match_g (cleanedContent content) bullet_item_re = Some bs \<and>
   String_match_g (cleanedContent content) numbered_item_re = Some ns \<longrightarrow>
     split_points (cleanedContent content) = map clean_point bs @ map clean_point ns \<and>
     list_points content =
       (if filter_points (map clean_point bs) @ filter_points (map clean_point ns) = []
        then [String_replace (cleanedContent content) bullet_marker_re []]
        else filter_points (map clean_point bs) @ filter_points (map clean_point ns))"
  by (simp add: list_points_cases split_points_def filter_points_append)

text \<open>A numbered line before a bulleted line: the bulleted one comes out first.\<close>

definition mixed_content :: jsstring where
  "mixed_content = str ''intro'' @ [NL] @ str ''1. bb'' @ [NL] @ str ''- cc''"

theorem mixed_list_bullets_first_witness:
  "String_match_g (cleanedContent mixed_content) bullet_item_re = Some [NL # str ''- cc''] \<and>
   String_match_g (cleanedContent mixed_content) numbered_item_re = Some [NL # str ''1. bb''] \<and>
   list_points mixed_content = [str ''- cc'', str ''1. bb'']"
proof -
  have c: "cleanedContent mixed_content = mixed_content"
    by (simp add: mixed_content_def char_defs re_defs cleanedContent_def)
  have a: "String_match_g mixed_content bullet_item_re = Some [NL # str ''- cc'']"
    by (simp add: mixed_content_def char_defs re_defs String_match_g_def)
  have b: "String_match_g mixed_content numbered_item_re = Some [NL # str ''1. bb'']"
    by (simp add: mixed_content_def char_defs re_defs String_match_g_def)
  have d: "filter_points (map clean_point [NL # str ''- cc'']) = [str ''- cc'']"
    "filter_points (map clean_point [NL # str ''1. bb'']) = [str ''1. bb'']"
    by (simp_all add: char_defs re_defs fn_defs)
  from mixed_list_bullets_first[of mixed_content "[NL # str ''- cc'']" "[NL # str ''1. bb'']"] a b c d
  have "list_points mixed_content = [str ''- cc'', str ''1. bb'']" by simp
  with a b c show ?thesis by simp
qed

text \<open>
  A bullet match whose cleaned text is one code unit long is not returned: the bullet
  match \<open>- a\<close> at the start of the cleaned content is cleaned to \<open>a\<close> and filtered out.
\<close>

definition short_bullet_content :: jsstring where
  "short_bullet_content = str ''- - a'' @ [NL] @ str ''1. bb''"

theorem bullet_item_filtered_out:
  "String_match_g (cleanedContent short_bullet_content) bullet_item_re = Some [str ''- a''] \<and>
   String_match_g (cleanedContent short_bullet_content) numbered_item_re = Some [NL # str ''1. bb''] \<and>
   map clean_point [str ''- a'', NL # str ''1. bb''] = [str ''a'', str ''1. bb''] \<and>
   list_points short_bullet_content = [str ''1. bb''] \<and>
   list_points short_bullet_content \<noteq> map clean_point [str ''- a'', NL # str ''1. bb'']"
proof -
  have c: "cleanedContent short_bullet_content = str ''- a'' @ [NL] @ str ''1. bb''"
    by (simp add: short_bullet_content_def char_defs re_defs cleanedContent_def)
  have a: "String_match_g (str ''- a'' @ [NL] @ str ''1. bb'') bullet_item_re = Some [str ''- a'']"
    by (simp add: char_defs re_defs String_match_g_def)
  have b: "String_match_g (str ''- a'' @ [NL] @ str ''1. bb'') numbered_item_re = Some [NL # str ''1. bb'']"
    by (simp add: char_defs re_defs String_match_g_def)
  have d: "map clean_point [str ''- a'', NL # str ''1. bb''] = [str ''a'', str ''1. bb'']"
    by (simp add: char_defs re_defs fn_defs)
  have e: "list_points short_bullet_content = [str ''1. bb'']"
    by (simp add: short_bullet_content_def char_defs re_defs fn_defs)
  have f: "[str ''1. bb''] \<noteq> [str ''a'', str ''1. bb'']" by simp
  from a b c d e f show ?thesis by simp
qed

section \<open>The sanitizers applied twice\<close>

text \<open>A string is trimmed when \<open>trim\<close> has nothing to strip from it.\<close>

definition trimmed :: "jsstring \<Rightarrow> bool" where
  "trimmed s \<longleftrightarrow> s = [] \<or> (\<not> is_space (hd s) \<and> \<not> is_space (last s))"

lemma last_dropWhile:
  "dropWhile P xs \<noteq> [] \<Longrightarrow> last (dropWhile P xs) = last xs"
  by (induction xs) (auto split: if_splits)

lemma trimmed_trim: "trimmed (trim s)"
proof -
  let ?d = "dropWhile is_space s"
  let ?e = "dropWhile is_space (rev ?d)"
  show ?thesis
  proof (cases "?e = []")
    case True
    then show ?thesis by (simp add: trimmed_def trim_def)
  next
    case False
    then have d: "?d \<noteq> []" by (cases "dropWhile is_space s") simp_all
    from False have h: "\<not> is_space (hd ?e)" by (rule hd_dropWhile)
    from False have "last ?e = last (rev ?d)" by (rule last_dropWhile)
    also have "\<dots> = hd ?d" using d by (simp add: last_rev)
    finally have l: "\<not> is_space (last ?e)" using d hd_dropWhile[of is_space s] by simp
    from False h l show ?thesis
      by (simp add: trimmed_def trim_def hd_rev last_rev)
  qed
qed

lemma trim_trimmed: "trimmed s \<Longrightarrow> trim s = s"
proof (cases "s = []")
  case True
  then show ?thesis by (simp add: trim_def)
next
  case False
  assume "trimmed s"
  with False have h: "\<not> is_space (hd s)" and l: "\<not> is_space (last s)"
    by (auto simp: trimmed_def)
  from False h have a: "dropWhile is_space s = s" by (cases s) auto
  from False l have b: "dropWhile is_space (rev s) = rev s"
    by (cases "rev s") (auto simp: last_rev[symmetric] hd_rev)
  from a b show ?thesis by (simp add: trim_def)
qed

lemma trimmed_suffix_dropWhile:
  assumes "trimmed (a @ b)"
  shows "trimmed (dropWhile is_space b)"
proof (cases "dropWhile is_space b = []")
  case True
  then show ?thesis by (simp add: trimmed_def)
next
  case False
  then have b: "b \<noteq> []" by auto
  from False have h: "\<not> is_space (hd (dropWhile is_space b))" by (rule hd_dropWhile)
  from False have "last (dropWhile is_space b) = last b" by (rule last_dropWhile)
  also have "\<dots> = last (a @ b)" using b by simp
  finally have "\<not> is_space (last (dropWhile is_space b))"
    using assms b by (auto simp: trimmed_def)
  with h show ?thesis by (simp add: trimmed_def)
qed

text \<open>A pattern that starts with \<open>^\<close> and has no \<open>m\<close> flag matches at the start of the input only.\<close>

lemma bol_later:
  "\<not> has_flag fl CHR ''m'' \<Longrightarrow> exec_from (RegExp (Seq Bol r) fl) (Some c) s = None"
  by (induction s arbitrary: c) auto

lemma exec_bol:
  "\<not> has_flag fl CHR ''m'' \<Longrightarrow>
   exec_from (RegExp (Seq Bol r) fl) None s =
     (case rmatch fl [Match r] None s None of
        None \<Rightarrow> None
      | Some (s', cap) \<Rightarrow> Some ([], take (length s - length s') s, cap, s'))"
  by (cases s) (auto simp: bol_later split: option.splits)

lemma star_end:
  "rmatch fl [Match (Star c)] p s cap = Some (dropWhile (cls_ok fl c) s, cap)"
  by (induction s arbitrary: p) auto

lemma replace_first:
  "re = RegExp r fl \<Longrightarrow> \<not> has_flag fl CHR ''g'' \<Longrightarrow>
   String_replace s re rep =
     (case exec_from re None s of None \<Rightarrow> s | Some (pre, mt, cap, rest) \<Rightarrow> pre @ rep @ rest)"
  by simp

lemma exec_anchored:
  "re = RegExp (Seq Bol r) fl \<Longrightarrow> \<not> has_flag fl CHR ''m'' \<Longrightarrow>
   exec_from re None s =
     (case rmatch fl [Match r] None s None of
        None \<Rightarrow> None
      | Some (s', cap) \<Rightarrow> Some ([], take (length s - length s') s, cap, s'))"
  by (simp add: exec_bol)

lemma cls_ok_space: "cls_ok fl CSpace = is_space"
  by (rule ext) simp

lemma h3_match:
  "rmatch [] [Match (seqs [lit ''###'', Plus CSpace])] None s None =
     (case s of
        a # b # c # d # t \<Rightarrow>
          if a = HASH \<and> b = HASH \<and> c = HASH \<and> is_space d
          then Some (dropWhile is_space t, None) else None
      | _ \<Rightarrow> None)"
  by (auto simp: eq_char_def has_flag_def star_end cls_ok_space split: list.splits)

lemma h3_replace:
  "String_replace s h3_re [] =
     (case s of
        a # b # c # d # t \<Rightarrow>
          if a = HASH \<and> b = HASH \<and> c = HASH \<and> is_space d then dropWhile is_space t else s
      | _ \<Rightarrow> s)"
proof -
  have "exec_from h3_re None s =
          (case rmatch [] [Match (seqs [lit ''###'', Plus CSpace])] None s None of
             None \<Rightarrow> None
           | Some (s', cap) \<Rightarrow> Some ([], take (length s - length s') s, cap, s'))"
    by (rule exec_anchored, simp add: h3_re_def, simp add: has_flag_def)
  moreover have "String_replace s h3_re [] =
      (case exec_from h3_re None s of
         None \<Rightarrow> s | Some (pre, mt, cap, rest) \<Rightarrow> pre @ [] @ rest)"
    by (rule replace_first, simp add: h3_re_def, simp add: has_flag_def)
  ultimately show ?thesis
    by (simp only: h3_match) (simp split: list.splits)
qed

lemma h3_none:
  "take 1 s \<noteq> [HASH] \<Longrightarrow> String_replace s h3_re [] = s"
  by (auto simp: h3_replace split: list.splits)

lemma h3_trimmed:
  assumes "trimmed s"
  shows "trimmed (String_replace s h3_re [])"
proof (cases "String_replace s h3_re [] = s")
  case True
  with assms show ?thesis by simp
next
  case False
  then obtain a b c d t where s: "s = a # b # c # d # t"
    and r: "String_replace s h3_re [] = dropWhile is_space t"
    by (auto simp: h3_replace split: list.splits if_splits)
  from assms s have "trimmed ([a, b, c, d] @ t)" by simp
  then have "trimmed (dropWhile is_space t)" by (rule trimmed_suffix_dropWhile)
  with r show ?thesis by simp
qed

lemma followUpText_trimmed: "trimmed (followUpText content)"
  unfolding followUpText_def by (rule h3_trimmed) (rule trimmed_trim)

lemma replace_global:
  "re = RegExp r fl \<Longrightarrow> has_flag fl CHR ''g'' \<Longrightarrow>
   String_replace s re rep = replace_all_from re rep 0 None s"
  by simp

lemma lead_asterisks_none:
  assumes "trimmed s" "take 1 s \<noteq> [ASTERISK]"
  shows "String_replace s lead_asterisks_re rep = s"
proof -
  have "exec_from lead_asterisks_re None s =
          (case rmatch [] [Match (seqs [Star CSpace, Plus (CLit ASTERISK), Star CSpace])] None s None of
             None \<Rightarrow> None
           | Some (s', cap) \<Rightarrow> Some ([], take (length s - length s') s, cap, s'))"
    by (rule exec_anchored, simp add: lead_asterisks_re_def, simp add: has_flag_def)
  also have "\<dots> = None"
    using assms by (cases s) (auto simp: trimmed_def eq_char_def has_flag_def)
  finally have "exec_from lead_asterisks_re None s = None" .
  moreover have "String_replace s lead_asterisks_re rep =
      (case exec_from lead_asterisks_re None s of
         None \<Rightarrow> s | Some (pre, mt, cap, rest) \<Rightarrow> pre @ rep @ rest)"
    by (rule replace_first, simp add: lead_asterisks_re_def, simp add: has_flag_def)
  ultimately show ?thesis by simp
qed

text \<open>What \<open>\s*\*+\s*$\<close> matches is a run of white space and asterisks up to the end.\<close>

lemma spaces_to_end:
  "rmatch [] [Match (Star CSpace), Match Eol] p s cap = Some r \<Longrightarrow> \<forall>c \<in> set s. is_space c"
  by (induction s arbitrary: p) (auto simp: has_flag_def split: if_splits option.splits)

lemma asterisks_to_end:
  "rmatch [] [Match (Star (CLit ASTERISK)), Match (Seq (Star CSpace) Eol)] p s cap = Some r \<Longrightarrow>
   \<forall>c \<in> set s. c = ASTERISK \<or> is_space c"
proof (induction s arbitrary: p r)
  case Nil
  then show ?case by simp
next
  case (Cons x xs)
  show ?case
  proof (cases "x = ASTERISK")
    case True
    show ?thesis
    proof (cases "rmatch [] [Match (Star (CLit ASTERISK)), Match (Seq (Star CSpace) Eol)] (Some x) xs cap")
      case None
      with Cons.prems True have "rmatch [] [Match (Star CSpace), Match Eol] p (x # xs) cap = Some r"
        by (simp add: eq_char_def has_flag_def)
      from spaces_to_end[OF this] show ?thesis by auto
    next
      case (Some a)
      from Cons.IH[OF Some] True show ?thesis by simp
    qed
  next
    case False
    with Cons.prems have "rmatch [] [Match (Star CSpace), Match Eol] p (x # xs) cap = Some r"
      by (simp add: eq_char_def has_flag_def)
    from spaces_to_end[OF this] show ?thesis by auto
  qed
qed

lemma trail_match_shape:
  "rmatch [] [Match (Star CSpace), Match (Seq (Plus (CLit ASTERISK)) (Seq (Star CSpace) Eol))] p s cap
     = Some r \<Longrightarrow>
   s \<noteq> [] \<and> (\<forall>c \<in> set s. c = ASTERISK \<or> is_space c)"
proof (induction s arbitrary: p r)
  case Nil
  then show ?case by simp
next
  case (Cons x xs)
  let ?k = "[Match (Star CSpace), Match (Seq (Plus (CLit ASTERISK)) (Seq (Star CSpace) Eol))]"
  have plus: "\<forall>c \<in> set (x # xs). c = ASTERISK \<or> is_space c"
    if "rmatch [] [Match (Seq (Plus (CLit ASTERISK)) (Seq (Star CSpace) Eol))] p (x # xs) cap = Some r"
  proof -
    from that have x: "x = ASTERISK"
      and "rmatch [] [Match (Star (CLit ASTERISK)), Match (Seq (Star CSpace) Eol)] (Some x) xs cap = Some r"
      by (auto simp: eq_char_def has_flag_def split: if_splits)
    from asterisks_to_end[OF this(2)] x show ?thesis by simp
  qed
  show ?case
  proof (cases "is_space x")
    case True
    show ?thesis
    proof (cases "rmatch [] ?k (Some x) xs cap")
      case None
      with Cons.prems True
      have "rmatch [] [Match (Seq (Plus (CLit ASTERISK)) (Seq (Star CSpace) Eol))] p (x # xs) cap = Some r"
        by simp
      from plus[OF this] show ?thesis by simp
    next
      case (Some a)
      from Cons.IH[OF Some] True show ?thesis by simp
    qed
  next
    case False
    with Cons.prems
    have "rmatch [] [Match (Seq (Plus (CLit ASTERISK)) (Seq (Star CSpace) Eol))] p (x # xs) cap = Some r"
      by simp
    from plus[OF this] show ?thesis by simp
  qed
qed

lemma trail_asterisks_exec:
  assumes "s = [] \<or> (last s \<noteq> ASTERISK \<and> \<not> is_space (last s))"
  shows "exec_from (RegExp (Seq (Star CSpace) (Seq (Plus (CLit ASTERISK)) (Seq (Star CSpace) Eol))) []) p s
           = None"
  using assms
proof (induction s arbitrary: p)
  case Nil
  then show ?case by (simp add: eq_char_def has_flag_def)
next
  case (Cons x xs)
  let ?k = "[Match (Star CSpace), Match (Seq (Plus (CLit ASTERISK)) (Seq (Star CSpace) Eol))]"
  from Cons.prems have l: "last (x # xs) \<noteq> ASTERISK" "\<not> is_space (last (x # xs))" by auto
  have "rmatch [] ?k p (x # xs) None = None"
  proof (cases "rmatch [] ?k p (x # xs) None")
    case None
    then show ?thesis .
  next
    case (Some r)
    from trail_match_shape[OF Some] have "last (x # xs) = ASTERISK \<or> is_space (last (x # xs))"
      using last_in_set[of "x # xs"] by blast
    with l show ?thesis by simp
  qed
  moreover have "xs = [] \<or> (last xs \<noteq> ASTERISK \<and> \<not> is_space (last xs))"
    using l by (cases xs) auto
  then have "exec_from (RegExp (Seq (Star CSpace) (Seq (Plus (CLit ASTERISK)) (Seq (Star CSpace) Eol))) [])
               (Some x) xs = None"
    by (rule Cons.IH)
  ultimately show ?case by simp
qed

lemma trail_asterisks_none:
  assumes "trimmed s" "take 1 (rev s) \<noteq> [ASTERISK]"
  shows "String_replace s trail_asterisks_re rep = s"
proof -
  from assms have "s = [] \<or> (last s \<noteq> ASTERISK \<and> \<not> is_space (last s))"
    by (cases "rev s") (auto simp: trimmed_def last_rev[symmetric] hd_rev)
  then have "exec_from trail_asterisks_re None s = None"
    by (simp add: trail_asterisks_re_def trail_asterisks_exec)
  moreover have "String_replace s trail_asterisks_re rep =
      (case exec_from trail_asterisks_re None s of
         None \<Rightarrow> s | Some (pre, mt, cap, rest) \<Rightarrow> pre @ rep @ rest)"
    by (rule replace_first, simp add: trail_asterisks_re_def, simp add: has_flag_def)
  ultimately show ?thesis by simp
qed

lemma followUpText_fixed:
  assumes "trimmed s" "take 1 s \<noteq> [ASTERISK]" "take 1 s \<noteq> [HASH]" "take 1 (rev s) \<noteq> [ASTERISK]"
  shows "followUpText s = s"
  using assms
  by (simp add: followUpText_def lead_asterisks_none trail_asterisks_none trim_trimmed h3_none)

text \<open>
  A text is tidy when each of its fences (three backticks in a row) stands right after a
  newline and either ends the text or is followed, on its own line, by something that is
  not white space, and when no other backtick stands at the start of a line;
  \<open>tidy p s\<close> says so for the text \<open>s\<close> that follows the code unit \<open>p\<close>. A run of
  four backticks is not tidy, since its second fence follows a backtick. Backticks of
  inline code inside a line are allowed.
\<close>

definition at_line_start :: "jschar option \<Rightarrow> bool" where
  "at_line_start p = (case p of None \<Rightarrow> True | Some c \<Rightarrow> is_line_terminator c)"

definition after_fence :: "jsstring \<Rightarrow> bool" where
  "after_fence r =
     (r = [] \<or>
      (dropWhile is_space r \<noteq> [] \<and>
       list_all (\<lambda>c. \<not> is_line_terminator c) (takeWhile is_space r)))"

fun tidy :: "jschar option \<Rightarrow> jsstring \<Rightarrow> bool" where
  "tidy p [] = True"
| "tidy p (x # xs) =
     ((if take 3 (x # xs) = [BT, BT, BT]
       then p = Some NL \<and> after_fence (drop 2 xs)
       else \<not> (x = BT \<and> at_line_start p)) \<and>
      tidy (Some x) xs)"

text \<open>After a fence of a tidy text, the white space \<open>\s*\<close> reaches neither a newline nor the end of a line.\<close>

lemma star_no_newline:
  "NL \<notin> set (takeWhile is_space r) \<Longrightarrow>
   rmatch ''g'' [Match (Star CSpace), Match (Chr (CLit NL))] p r cap = None"
  by (induction r arbitrary: p) (auto simp: eq_char_def has_flag_def is_space_def)

lemma star_no_eol:
  "dropWhile is_space r \<noteq> [] \<Longrightarrow>
   list_all (\<lambda>c. \<not> is_line_terminator c) (takeWhile is_space r) \<Longrightarrow>
   rmatch ''gm'' [Match (Star CSpace), Match Eol] p r cap = None"
  by (induction r arbitrary: p)
     (auto simp: has_flag_def is_space_def is_line_terminator_def split: if_splits)

lemma after_fence_no_newline: "after_fence r \<Longrightarrow> NL \<notin> set (takeWhile is_space r)"
  by (auto simp: after_fence_def list_all_iff is_line_terminator_def)

lemma after_fence_text: "\<not> is_space x \<Longrightarrow> after_fence (x # r)"
  by (simp add: after_fence_def)

text \<open>
  A global replacement returns its input when, at every position, its pattern either
  does not match or matches exactly the replacement text.
\<close>

lemma replace_all_same_drop:
  assumes step: "\<And>q t. Q q t \<Longrightarrow>
      rmatch fl [Match r] q t None = None \<or>
      (rep \<noteq> [] \<and> length rep \<le> length t \<and> take (length rep) t = rep \<and>
       (\<exists>cap. rmatch fl [Match r] q t None = Some (drop (length rep) t, cap)))"
    and tail: "\<And>q x t. Q q (x # t) \<Longrightarrow> Q (Some x) t"
  shows "Q p s \<Longrightarrow> k \<le> length s \<Longrightarrow> replace_all_from (RegExp r fl) rep k p s = drop k s"
proof (induction s arbitrary: p k)
  case Nil
  then have k: "k = 0" by simp
  from step[OF Nil.prems(1)] have "rmatch fl [Match r] p [] None = None" by auto
  with k show ?case by simp
next
  case (Cons x xs)
  from Cons.prems(1) have q: "Q (Some x) xs" by (rule tail)
  show ?case
  proof (cases k)
    case (Suc k')
    with Cons.prems(2) have "k' \<le> length xs" by simp
    from Cons.IH[OF q this] Suc show ?thesis by simp
  next
    case 0
    from step[OF Cons.prems(1)] show ?thesis
    proof
      assume "rmatch fl [Match r] p (x # xs) None = None"
      with Cons.IH[OF q, of 0] 0 show ?thesis by simp
    next
      assume a: "rep \<noteq> [] \<and> length rep \<le> length (x # xs) \<and> take (length rep) (x # xs) = rep \<and>
        (\<exists>cap. rmatch fl [Match r] p (x # xs) None = Some (drop (length rep) (x # xs), cap))"
      then obtain cap where m: "rmatch fl [Match r] p (x # xs) None = Some (drop (length rep) (x # xs), cap)"
        by blast
      from a obtain n where n: "length rep = Suc n" by (cases "length rep") auto
      with a have le: "n \<le> length xs" by simp
      from Cons.IH[OF q le] have ih: "replace_all_from (RegExp r fl) rep n (Some x) xs = drop n xs" .
      from a n have t: "rep = x # take n xs" by (metis take_Suc_Cons)
      from n le have len: "length (x # xs) - length (drop (length rep) (x # xs)) = Suc n"
        by simp
      have "replace_all_from (RegExp r fl) rep 0 p (x # xs) =
                          rep @ replace_all_from (RegExp r fl) rep n (Some x) xs"
        by (simp only: replace_all_from.simps m option.case prod.case len) simp
      with ih t 0 show ?thesis by simp
    qed
  qed
qed

lemma list3_cases:
  obtains "s = []" | a where "s = [a]" | a b where "s = [a, b]" | a b c t where "s = a # b # c # t"
proof (cases s)
  case Nil
  then show ?thesis by (rule that(1))
next
  case (Cons a s1)
  show ?thesis
  proof (cases s1)
    case Nil
    with Cons show ?thesis by (simp add: that(2))
  next
    case (Cons b s2)
    show ?thesis
    proof (cases s2)
      case Nil
      with \<open>s = a # s1\<close> \<open>s1 = b # s2\<close> show ?thesis by (simp add: that(3))
    next
      case (Cons c t)
      with \<open>s = a # s1\<close> \<open>s1 = b # s2\<close> show ?thesis by (simp add: that(4))
    qed
  qed
qed

lemma tidy_tail: "tidy q (x # t) \<Longrightarrow> tidy (Some x) t"
  by simp

text \<open>None of the four patterns changes a tidy text.\<close>

lemma untagged_at:
  "tidy q t \<Longrightarrow>
   rmatch ''g'' [Match (seqs [lit ''```'', Star CSpace, Chr (CLit NL)])] q t None = None"
proof (cases t rule: list3_cases)
  case (4 a b c u)
  assume "tidy q t"
  with 4 show ?thesis
    by (auto simp: has_flag_def eq_char_def star_no_newline after_fence_no_newline)
qed (simp_all add: has_flag_def eq_char_def)

lemma lone_at:
  "tidy q t \<Longrightarrow>
   rmatch ''gm'' [Match (seqs [Bol, lit ''```'', Star CSpace, Eol])] q t None = None \<or>
   (take 3 t = [BT, BT, BT] \<and>
    rmatch ''gm'' [Match (seqs [Bol, lit ''```'', Star CSpace, Eol])] q t None = Some (drop 3 t, None))"
proof (cases t rule: list3_cases)
  case (4 a b c u)
  assume "tidy q t"
  with 4 show ?thesis
    using star_no_eol [of u "Some BT" None]
    by (cases q; cases "u = []")
       (auto simp: has_flag_def eq_char_def after_fence_def)
qed (cases q; auto simp: has_flag_def eq_char_def)+

lemma stray_at:
  "tidy q t \<Longrightarrow>
   rmatch ''gm'' [Match (seqs [Bol, Seq (Chr (CLit BT)) (Opt (Chr (CLit BT))),
                              NotAhead (Chr (CLit BT))])] q t None = None"
proof (cases t rule: list3_cases)
  case (4 a b c u)
  assume "tidy q t"
  with 4 show ?thesis
    by (cases q) (auto simp: has_flag_def eq_char_def at_line_start_def)
next
  case 1
  then show ?thesis by (cases q) (auto simp: has_flag_def eq_char_def)
next
  case (2 a)
  assume "tidy q t"
  with 2 show ?thesis
    by (cases q) (auto simp: has_flag_def eq_char_def at_line_start_def)
next
  case (3 a b)
  assume "tidy q t"
  with 3 show ?thesis
    by (cases q) (auto simp: has_flag_def eq_char_def at_line_start_def)
qed

lemma midline_at:
  "tidy q t \<Longrightarrow>
   rmatch ''g'' [Match (seqs [NotBehind (CLit NL), lit ''```''])] q t None = None"
proof (cases t rule: list3_cases)
  case (4 a b c u)
  assume "tidy q t"
  with 4 show ?thesis
    by (cases q) (auto simp: has_flag_def eq_char_def)
qed (cases q; auto simp: has_flag_def eq_char_def)+

lemma tidy_replace_none:
  assumes at: "\<And>q t. tidy q t \<Longrightarrow> rmatch fl [Match r] q t None = None"
    and t: "tidy p s"
  shows "replace_all_from (RegExp r fl) rep 0 p s = s"
proof -
  have "replace_all_from (RegExp r fl) rep 0 p s = drop 0 s"
    by (rule replace_all_same_drop[where Q = tidy]) (auto simp: at t)
  then show ?thesis by simp
qed

lemma tidy_replace:
  assumes "tidy None s"
  shows "String_replace s fence_untagged_re rep = s"
    and "String_replace s fence_lone_re (str ''```'') = s"
    and "String_replace s stray_backticks_re rep = s"
    and "String_replace s fence_midline_re rep = s"
proof -
  have "replace_all_from fence_untagged_re rep 0 None s = s"
    unfolding fence_untagged_re_def using untagged_at assms by (rule tidy_replace_none)
  moreover have "String_replace s fence_untagged_re rep =
                   replace_all_from fence_untagged_re rep 0 None s"
    by (rule replace_global, simp add: fence_untagged_re_def, simp add: has_flag_def)
  ultimately show "String_replace s fence_untagged_re rep = s" by simp
next
  have "replace_all_from fence_lone_re [BT, BT, BT] 0 None s = drop 0 s"
    unfolding fence_lone_re_def
  proof (rule replace_all_same_drop[where Q = tidy])
    fix q t assume "tidy q t"
    from lone_at[OF this]
    show "rmatch ''gm'' [Match (seqs [Bol, lit ''```'', Star CSpace, Eol])] q t None = None \<or>
          ([BT, BT, BT] \<noteq> [] \<and> length [BT, BT, BT] \<le> length t \<and>
           take (length [BT, BT, BT]) t = [BT, BT, BT] \<and>
           (\<exists>cap. rmatch ''gm'' [Match (seqs [Bol, lit ''```'', Star CSpace, Eol])] q t None =
                    Some (drop (length [BT, BT, BT]) t, cap)))"
    proof
      assume "rmatch ''gm'' [Match (seqs [Bol, lit ''```'', Star CSpace, Eol])] q t None = None"
      then show ?thesis by blast
    next
      assume a: "take 3 t = [BT, BT, BT] \<and>
        rmatch ''gm'' [Match (seqs [Bol, lit ''```'', Star CSpace, Eol])] q t None = Some (drop 3 t, None)"
      then have "length (take 3 t) = 3" by simp
      then have le: "3 \<le> length t" by simp
      have l: "length [BT, BT, BT] = (3::nat)" by simp
      have ne: "[BT, BT, BT] \<noteq> ([]::jsstring)" by simp
      show ?thesis unfolding l using a le ne by blast
    qed
  qed (simp_all add: assms)
  moreover have "String_replace s fence_lone_re (str ''```'') =
                   replace_all_from fence_lone_re (str ''```'') 0 None s"
    by (rule replace_global, simp add: fence_lone_re_def, simp add: has_flag_def)
  ultimately show "String_replace s fence_lone_re (str ''```'') = s" by (simp add: str_def)
next
  have "replace_all_from stray_backticks_re rep 0 None s = s"
    unfolding stray_backticks_re_def using stray_at assms by (rule tidy_replace_none)
  moreover have "String_replace s stray_backticks_re rep =
                   replace_all_from stray_backticks_re rep 0 None s"
    by (rule replace_global, simp add: stray_backticks_re_def, simp add: has_flag_def)
  ultimately show "String_replace s stray_backticks_re rep = s" by simp
next
  have "replace_all_from fence_midline_re rep 0 None s = s"
    unfolding fence_midline_re_def using midline_at assms by (rule tidy_replace_none)
  moreover have "String_replace s fence_midline_re rep =
                   replace_all_from fence_midline_re rep 0 None s"
    by (rule replace_global, simp add: fence_midline_re_def, simp add: has_flag_def)
  ultimately show "String_replace s fence_midline_re rep = s" by simp
qed

lemma idealResponseText_fixed:
  "tidy None s \<Longrightarrow> idealResponseText s = s"
  by (simp add: idealResponseText_def tidy_replace)

text \<open>
  The passes over a fenced block: some text without backticks, an untagged opening
  fence on a line of its own, the code, and the closing fence that ends the text.
\<close>

definition lastp :: "jschar option \<Rightarrow> jsstring \<Rightarrow> jschar option" where
  "lastp p a = (if a = [] then p else Some (last a))"

lemma tidy_prefix:
  "BT \<notin> set a \<Longrightarrow> tidy p (a @ rest) = tidy (lastp p a) rest"
  by (induction a arbitrary: p) (auto simp: lastp_def)

lemma pass_prefix:
  assumes "\<And>q x t. x \<noteq> BT \<Longrightarrow> rmatch fl [Match r] q (x # t) None = None"
  shows "BT \<notin> set a \<Longrightarrow>
         replace_all_from (RegExp r fl) rep 0 p (a @ rest) =
           a @ replace_all_from (RegExp r fl) rep 0 (lastp p a) rest"
  by (induction a arbitrary: p) (auto simp: lastp_def assms)

lemma no_match_off_backtick:
  assumes "x \<noteq> BT"
  shows "rmatch ''g'' [Match (seqs [lit ''```'', Star CSpace, Chr (CLit NL)])] q (x # t) None = None"
    and "rmatch ''gm'' [Match (seqs [Bol, lit ''```'', Star CSpace, Eol])] q (x # t) None = None"
    and "rmatch ''gm'' [Match (seqs [Bol, Seq (Chr (CLit BT)) (Opt (Chr (CLit BT))),
                                   NotAhead (Chr (CLit BT))])] q (x # t) None = None"
    and "rmatch ''g'' [Match (seqs [NotBehind (CLit NL), lit ''```''])] q (x # t) None = None"
  using assms by (cases q; simp add: has_flag_def eq_char_def)+

lemma pass_untagged:
  "BT \<notin> set a \<Longrightarrow>
   replace_all_from fence_untagged_re rep 0 p (a @ rest) =
     a @ replace_all_from fence_untagged_re rep 0 (lastp p a) rest"
  unfolding fence_untagged_re_def by (rule pass_prefix) (rule no_match_off_backtick)

lemma pass_lone:
  "BT \<notin> set a \<Longrightarrow>
   replace_all_from fence_lone_re rep 0 p (a @ rest) =
     a @ replace_all_from fence_lone_re rep 0 (lastp p a) rest"
  unfolding fence_lone_re_def by (rule pass_prefix) (rule no_match_off_backtick)

lemma pass_stray:
  "BT \<notin> set a \<Longrightarrow>
   replace_all_from stray_backticks_re rep 0 p (a @ rest) =
     a @ replace_all_from stray_backticks_re rep 0 (lastp p a) rest"
  unfolding stray_backticks_re_def by (rule pass_prefix) (rule no_match_off_backtick)

lemma pass_midline:
  "BT \<notin> set a \<Longrightarrow>
   replace_all_from fence_midline_re rep 0 p (a @ rest) =
     a @ replace_all_from fence_midline_re rep 0 (lastp p a) rest"
  unfolding fence_midline_re_def by (rule pass_prefix) (rule no_match_off_backtick)

lemma not_space_not_nl: "\<not> is_space x \<Longrightarrow> x \<noteq> NL"
  by (auto simp: is_space_def)

lemma not_space_not_lt: "\<not> is_space x \<Longrightarrow> \<not> is_line_terminator x"
  by (auto simp: is_space_def is_line_terminator_def)

lemma char_facts:
  "is_space NL" "is_line_terminator NL" "\<not> is_line_terminator BT" "\<not> is_space BT"
  by (simp_all add: is_space_def is_line_terminator_def)

lemma untagged_open:
  assumes "\<not> is_space h" "h \<noteq> BT"
  shows "replace_all_from fence_untagged_re rep 0 q (BT # BT # BT # NL # h # rest) =
           rep @ replace_all_from fence_untagged_re rep 0 (Some NL) (h # rest)"
  using assms not_space_not_nl[OF assms(1)] unfolding fence_untagged_re_def
  by (simp add: has_flag_def eq_char_def char_facts numeral_3_eq_3 numeral_2_eq_2)

lemma untagged_tagged:
  assumes "\<not> is_space x" "x \<noteq> BT"
  shows "replace_all_from fence_untagged_re rep 0 q (BT # BT # BT # x # rest) =
           BT # BT # BT # replace_all_from fence_untagged_re rep 0 (Some BT) (x # rest)"
  using assms not_space_not_nl[OF assms(1)] unfolding fence_untagged_re_def
  by (simp add: has_flag_def eq_char_def char_facts numeral_3_eq_3 numeral_2_eq_2)

lemma untagged_close:
  "replace_all_from fence_untagged_re rep 0 q [NL, BT, BT, BT] = [NL, BT, BT, BT]"
  unfolding fence_untagged_re_def by (simp add: has_flag_def eq_char_def)

lemma lone_tagged:
  assumes "\<not> is_space x" "x \<noteq> BT"
  shows "replace_all_from fence_lone_re rep 0 q (BT # BT # BT # x # rest) =
           BT # BT # BT # replace_all_from fence_lone_re rep 0 (Some BT) (x # rest)"
  using assms not_space_not_lt[OF assms(1)] unfolding fence_lone_re_def
  by (cases q) (simp_all add: has_flag_def eq_char_def char_facts numeral_3_eq_3 numeral_2_eq_2)

lemma lone_close:
  "replace_all_from fence_lone_re [BT, BT, BT] 0 q [NL, BT, BT, BT] = [NL, BT, BT, BT]"
  unfolding fence_lone_re_def
  by (cases q) (simp_all add: has_flag_def eq_char_def char_facts numeral_3_eq_3 numeral_2_eq_2)

lemma stray_tagged:
  "x \<noteq> BT \<Longrightarrow>
   replace_all_from stray_backticks_re rep 0 q (BT # BT # BT # x # rest) =
     BT # BT # BT # replace_all_from stray_backticks_re rep 0 (Some BT) (x # rest)"
  unfolding stray_backticks_re_def
  by (cases q) (simp_all add: has_flag_def eq_char_def char_facts numeral_3_eq_3 numeral_2_eq_2)

lemma stray_close:
  "replace_all_from stray_backticks_re rep 0 q [NL, BT, BT, BT] = [NL, BT, BT, BT]"
  unfolding stray_backticks_re_def
  by (cases q) (simp_all add: has_flag_def eq_char_def char_facts numeral_3_eq_3 numeral_2_eq_2)

lemma midline_tagged:
  assumes "x \<noteq> BT"
  shows "replace_all_from fence_midline_re (NL # [BT, BT, BT]) 0 q (BT # BT # BT # x # rest) =
           (if q = Some NL then [] else [NL]) @
           BT # BT # BT # replace_all_from fence_midline_re (NL # [BT, BT, BT]) 0 (Some BT) (x # rest)"
  using assms unfolding fence_midline_re_def
  by (cases q) (simp_all add: has_flag_def eq_char_def char_facts numeral_3_eq_3 numeral_2_eq_2)

lemma midline_close:
  "replace_all_from fence_midline_re rep 0 q [NL, BT, BT, BT] = [NL, BT, BT, BT]"
  unfolding fence_midline_re_def
  by (cases q) (simp_all add: has_flag_def eq_char_def char_facts numeral_3_eq_3 numeral_2_eq_2)

lemma pass_cons:
  assumes "x \<noteq> BT"
  shows "replace_all_from fence_untagged_re rep 0 p (x # rest) =
           x # replace_all_from fence_untagged_re rep 0 (Some x) rest"
    and "replace_all_from fence_lone_re rep 0 p (x # rest) =
           x # replace_all_from fence_lone_re rep 0 (Some x) rest"
    and "replace_all_from stray_backticks_re rep 0 p (x # rest) =
           x # replace_all_from stray_backticks_re rep 0 (Some x) rest"
    and "replace_all_from fence_midline_re rep 0 p (x # rest) =
           x # replace_all_from fence_midline_re rep 0 (Some x) rest"
  using assms pass_untagged[of "[x]" rep p rest] pass_lone[of "[x]" rep p rest]
    pass_stray[of "[x]" rep p rest] pass_midline[of "[x]" rep p rest]
  by (simp_all add: lastp_def)

lemma global_replace:
  "String_replace s fence_untagged_re rep = replace_all_from fence_untagged_re rep 0 None s"
  "String_replace s fence_lone_re rep = replace_all_from fence_lone_re rep 0 None s"
  "String_replace s stray_backticks_re rep = replace_all_from stray_backticks_re rep 0 None s"
  "String_replace s fence_midline_re rep = replace_all_from fence_midline_re rep 0 None s"
  by (rule replace_global, simp add: fence_untagged_re_def, simp add: has_flag_def,
      rule replace_global, simp add: fence_lone_re_def, simp add: has_flag_def,
      rule replace_global, simp add: stray_backticks_re_def, simp add: has_flag_def,
      rule replace_global, simp add: fence_midline_re_def, simp add: has_flag_def)

lemma tag_pass:
  assumes "BT \<notin> set a" "BT \<notin> set (h # t)" "\<not> is_space h"
  shows "String_replace (a @ [BT, BT, BT, NL] @ (h # t) @ [NL, BT, BT, BT]) fence_untagged_re rep =
           a @ rep @ (h # t) @ [NL, BT, BT, BT]"
  using assms
  by (simp add: global_replace pass_untagged untagged_open pass_cons untagged_close)

lemma block_unchanged:
  assumes "BT \<notin> set a" "BT \<notin> set (x # m)" "\<not> is_space x"
  shows "String_replace (a @ [BT, BT, BT] @ (x # m) @ [NL, BT, BT, BT]) fence_lone_re [BT, BT, BT] =
           a @ [BT, BT, BT] @ (x # m) @ [NL, BT, BT, BT]"
    and "String_replace (a @ [BT, BT, BT] @ (x # m) @ [NL, BT, BT, BT]) stray_backticks_re rep =
           a @ [BT, BT, BT] @ (x # m) @ [NL, BT, BT, BT]"
  using assms
  by (simp_all add: global_replace pass_lone lone_tagged pass_cons lone_close
        pass_stray stray_tagged stray_close)

lemma block_newline:
  assumes "BT \<notin> set a" "BT \<notin> set (x # m)"
  shows "String_replace (a @ [BT, BT, BT] @ (x # m) @ [NL, BT, BT, BT]) fence_midline_re
           (NL # [BT, BT, BT]) =
         a @ (if a \<noteq> [] \<and> last a = NL then [] else [NL]) @
         [BT, BT, BT] @ (x # m) @ [NL, BT, BT, BT]"
  using assms
  by (simp add: global_replace pass_midline midline_tagged pass_cons midline_close lastp_def)

lemma block_tidy:
  assumes "BT \<notin> set a" "BT \<notin> set (x # m)" "\<not> is_space x"
  shows "tidy None (a @ (if a \<noteq> [] \<and> last a = NL then [] else [NL]) @
                    [BT, BT, BT] @ (x # m) @ [NL, BT, BT, BT])"
proof -
  let ?R = "[BT, BT, BT] @ (x # m) @ [NL, BT, BT, BT]"
  have f: "tidy (Some NL) ?R"
    using assms tidy_prefix[of m "Some x" "[NL, BT, BT, BT]"]
    by (simp add: at_line_start_def char_facts lastp_def after_fence_def)
  show ?thesis
  proof (cases "a \<noteq> [] \<and> last a = NL")
    case True
    then have e: "lastp None a = Some NL" by (simp add: lastp_def)
    have s: "a @ (if a \<noteq> [] \<and> last a = NL then [] else [NL]) @ ?R = a @ ?R"
      using True by simp
    have "tidy None (a @ ?R) = tidy (lastp None a) ?R"
      using assms(1) by (rule tidy_prefix)
    with e have "tidy None (a @ ?R) = tidy (Some NL) ?R" by (simp only:)
    with f have "tidy None (a @ ?R)" by (simp only:)
    then show ?thesis unfolding s .
  next
    case False
    have s: "a @ (if a \<noteq> [] \<and> last a = NL then [] else [NL]) @ ?R = (a @ [NL]) @ ?R"
      using False by simp
    have b: "BT \<notin> set (a @ [NL])" using assms(1) by simp
    have e: "lastp None (a @ [NL]) = Some NL" by (simp add: lastp_def)
    have "tidy None ((a @ [NL]) @ ?R) = tidy (lastp None (a @ [NL])) ?R"
      using b by (rule tidy_prefix)
    with e have "tidy None ((a @ [NL]) @ ?R) = tidy (Some NL) ?R" by (simp only:)
    with f have "tidy None ((a @ [NL]) @ ?R)" by (simp only:)
    then show ?thesis unfolding s .
  qed
qed

lemma fenced_block_cleaned:
  assumes a: "BT \<notin> set a" and c: "BT \<notin> set c" "c \<noteq> []" "\<not> is_space (hd c)"
  shows "idealResponseText (a @ str ''```'' @ [NL] @ c @ [NL] @ str ''```'') =
           a @ (if a \<noteq> [] \<and> last a = NL then [] else [NL]) @
           str ''```python'' @ [NL] @ c @ [NL] @ str ''```''"
    and "tidy None (a @ (if a \<noteq> [] \<and> last a = NL then [] else [NL]) @
           str ''```python'' @ [NL] @ c @ [NL] @ str ''```'')"
proof -
  from c obtain h t where ht: "c = h # t" "\<not> is_space h" "BT \<notin> set (h # t)"
    by (cases c) auto
  define m where "m = str ''ython'' @ [NL] @ c"
  let ?X = "a @ str ''```'' @ [NL] @ c @ [NL] @ str ''```''"
  let ?Y = "a @ [BT, BT, BT] @ (112 # m) @ [NL, BT, BT, BT]"
  let ?Z = "a @ (if a \<noteq> [] \<and> last a = NL then [] else [NL]) @
            [BT, BT, BT] @ (112 # m) @ [NL, BT, BT, BT]"
  have m: "BT \<notin> set (112 # m)" "\<not> is_space 112"
    using c by (simp_all add: m_def str_def is_space_def)
  have x: "?X = a @ [BT, BT, BT, NL] @ (h # t) @ [NL, BT, BT, BT]"
    by (simp add: str_def ht)
  have "String_replace (a @ [BT, BT, BT, NL] @ (h # t) @ [NL, BT, BT, BT]) fence_untagged_re
          (str ''```python'' @ [NL]) =
        a @ (str ''```python'' @ [NL]) @ (h # t) @ [NL, BT, BT, BT]"
    using a ht(3) ht(2) by (rule tag_pass)
  also have "\<dots> = ?Y" by (simp add: str_def m_def ht)
  finally have p1: "String_replace ?X fence_untagged_re (str ''```python'' @ [NL]) = ?Y"
    unfolding x .
  have p2: "String_replace ?Y fence_lone_re (str ''```'') = ?Y"
    using block_unchanged(1)[OF a m] by (simp add: str_def)
  have p3: "String_replace ?Y stray_backticks_re [] = ?Y"
    using a m by (rule block_unchanged(2))
  have p4: "String_replace ?Y fence_midline_re (NL # str ''```'') = ?Z"
    using block_newline[OF a m(1)] by (simp add: str_def)
  have z: "?Z = a @ (if a \<noteq> [] \<and> last a = NL then [] else [NL]) @
           str ''```python'' @ [NL] @ c @ [NL] @ str ''```''"
    by (simp add: str_def m_def)
  have "idealResponseText ?X = ?Z"
    unfolding idealResponseText_def p1 p2 p3 p4 ..
  then show "idealResponseText ?X = a @ (if a \<noteq> [] \<and> last a = NL then [] else [NL]) @
           str ''```python'' @ [NL] @ c @ [NL] @ str ''```''"
    unfolding z .
  have "tidy None ?Z" using a m by (rule block_tidy)
  then show "tidy None (a @ (if a \<noteq> [] \<and> last a = NL then [] else [NL]) @
           str ''```python'' @ [NL] @ c @ [NL] @ str ''```'')"
    unfolding z .
qed

text \<open>
  C7, amended. Applying the follow-up cleanup to its own output gives the same string
  whenever that output does not begin with an asterisk or with \<open>#\<close> and does not end with
  an asterisk. Applying the ideal-response cleanup to its own output gives the same
  string whenever that output is tidy: each fence stands right after a newline and
  either ends the text or is followed on its line by something other than white space,
  and no other backtick starts a line. This is so for every fenced block: for a text
  without backticks, followed by an untagged opening fence, a newline, code without
  backticks that starts with something other than white space, a newline and the
  closing fence, the cleanup tags the opening fence with \<open>python\<close>, puts the fence on
  a line of its own, and applied once more returns the same string.
\<close>

theorem cleanup_fixed_on_clean_output:
  "(take 1 (followUpText content) \<noteq> [ASTERISK] \<and> take 1 (followUpText content) \<noteq> [HASH] \<and>
    take 1 (rev (followUpText content)) \<noteq> [ASTERISK] \<longrightarrow>
      followUpText (followUpText content) = followUpText content) \<and>
   (tidy None (idealResponseText content) \<longrightarrow>
      idealResponseText (idealResponseText content) = idealResponseText content) \<and>
   (BT \<notin> set prose \<and> BT \<notin> set code \<and> code \<noteq> [] \<and> \<not> is_space (hd code) \<longrightarrow>
      idealResponseText (prose @ str ''```'' @ [NL] @ code @ [NL] @ str ''```'') =
        prose @ (if prose \<noteq> [] \<and> last prose = NL then [] else [NL]) @
        str ''```python'' @ [NL] @ code @ [NL] @ str ''```'' \<and>
      idealResponseText (idealResponseText (prose @ str ''```'' @ [NL] @ code @ [NL] @ str ''```'')) =
        idealResponseText (prose @ str ''```'' @ [NL] @ code @ [NL] @ str ''```''))"
proof (intro conjI impI)
  assume "take 1 (followUpText content) \<noteq> [ASTERISK] \<and> take 1 (followUpText content) \<noteq> [HASH] \<and>
    take 1 (rev (followUpText content)) \<noteq> [ASTERISK]"
  then show "followUpText (followUpText content) = followUpText content"
    by (simp add: followUpText_fixed followUpText_trimmed)
next
  assume "tidy None (idealResponseText content)"
  then show "idealResponseText (idealResponseText content) = idealResponseText content"
    by (rule idealResponseText_fixed)
next
  assume h: "BT \<notin> set prose \<and> BT \<notin> set code \<and> code \<noteq> [] \<and> \<not> is_space (hd code)"
  then show e: "idealResponseText (prose @ str ''```'' @ [NL] @ code @ [NL] @ str ''```'') =
        prose @ (if prose \<noteq> [] \<and> last prose = NL then [] else [NL]) @
        str ''```python'' @ [NL] @ code @ [NL] @ str ''```''"
    using fenced_block_cleaned(1) [of prose code] by blast
  from h have "tidy None (prose @ (if prose \<noteq> [] \<and> last prose = NL then [] else [NL]) @
        str ''```python'' @ [NL] @ code @ [NL] @ str ''```'')"
    using fenced_block_cleaned(2) [of prose code] by blast
  then have "tidy None (idealResponseText (prose @ str ''```'' @ [NL] @ code @ [NL] @ str ''```''))"
    unfolding e .
  then show "idealResponseText (idealResponseText (prose @ str ''```'' @ [NL] @ code @ [NL] @ str ''```'')) =
        idealResponseText (prose @ str ''```'' @ [NL] @ code @ [NL] @ str ''```'')"
    by (rule idealResponseText_fixed)
qed

text \<open>
  The follow-up \<open>**Why?**\<close>, an ideal response with a fence inside a line, and the
  fenced block \<open>code\<close> with and without the text \<open>Use:\<close> before it are cleaned once and
  then stay.
\<close>

lemma why_cleaned: "followUpText (str ''**Why?**'') = str ''Why?''"
  by (simp add: char_defs re_defs fn_defs)

lemma call_cleaned:
  "idealResponseText (str ''Call ```f()``` here'') =
     str ''Call '' @ [NL] @ str ''```f()'' @ [NL] @ str ''``` here''"
  by (simp add: char_defs re_defs fn_defs)

lemma call_tidy:
  "tidy None (str ''Call '' @ [NL] @ str ''```f()'' @ [NL] @ str ''``` here'')"
  by (simp add: str_def at_line_start_def is_line_terminator_def after_fence_def is_space_def)

theorem cleanup_fixed_on_clean_output_witness:
  "followUpText (str ''**Why?**'') = str ''Why?'' \<and>
   take 1 (str ''Why?'') \<noteq> [ASTERISK] \<and> take 1 (str ''Why?'') \<noteq> [HASH] \<and>
   take 1 (rev (str ''Why?'')) \<noteq> [ASTERISK] \<and>
   followUpText (str ''Why?'') = str ''Why?'' \<and>
   idealResponseText (str ''Call ```f()``` here'') =
     str ''Call '' @ [NL] @ str ''```f()'' @ [NL] @ str ''``` here'' \<and>
   tidy None (str ''Call '' @ [NL] @ str ''```f()'' @ [NL] @ str ''``` here'') \<and>
   idealResponseText (str ''Call '' @ [NL] @ str ''```f()'' @ [NL] @ str ''``` here'') =
     str ''Call '' @ [NL] @ str ''```f()'' @ [NL] @ str ''``` here'' \<and>
   BT \<notin> set (str ''Use:'') \<and> BT \<notin> set (str ''code'') \<and> str ''code'' \<noteq> [] \<and>
   \<not> is_space (hd (str ''code'')) \<and>
   idealResponseText (str ''Use:'' @ str ''```'' @ [NL] @ str ''code'' @ [NL] @ str ''```'') =
     str ''Use:'' @ [NL] @ str ''```python'' @ [NL] @ str ''code'' @ [NL] @ str ''```'' \<and>
   idealResponseText
     (str ''Use:'' @ [NL] @ str ''```python'' @ [NL] @ str ''code'' @ [NL] @ str ''```'') =
     str ''Use:'' @ [NL] @ str ''```python'' @ [NL] @ str ''code'' @ [NL] @ str ''```'' \<and>
   idealResponseText (str ''```'' @ [NL] @ str ''code'' @ [NL] @ str ''```'') =
     [NL] @ str ''```python'' @ [NL] @ str ''code'' @ [NL] @ str ''```'' \<and>
   idealResponseText ([NL] @ str ''```python'' @ [NL] @ str ''code'' @ [NL] @ str ''```'') =
     [NL] @ str ''```python'' @ [NL] @ str ''code'' @ [NL] @ str ''```''"
proof -
  have b: "take 1 (str ''Why?'') \<noteq> [ASTERISK]" "take 1 (str ''Why?'') \<noteq> [HASH]"
    "take 1 (rev (str ''Why?'')) \<noteq> [ASTERISK]"
    by (simp_all add: str_def)
  have h: "BT \<notin> set (str ''Use:'')" "BT \<notin> set (str ''code'')" "str ''code'' \<noteq> []"
    "\<not> is_space (hd (str ''code''))" "BT \<notin> set []"
    by (simp_all add: str_def is_space_def)
  have l: "str ''Use:'' \<noteq> []" "last (str ''Use:'') \<noteq> NL"
    by (simp_all add: str_def)
  note t = cleanup_fixed_on_clean_output
    [of "str ''**Why?**''" "str ''Use:''" "str ''code''"]
  note u = cleanup_fixed_on_clean_output
    [of "str ''Call ```f()``` here''" "[]" "str ''code''"]
  from t b have 1: "followUpText (str ''Why?'') = str ''Why?''"
    by (simp add: why_cleaned)
  from u call_tidy
  have 2: "idealResponseText (str ''Call '' @ [NL] @ str ''```f()'' @ [NL] @ str ''``` here'') =
     str ''Call '' @ [NL] @ str ''```f()'' @ [NL] @ str ''``` here''"
    by (simp add: call_cleaned)
  let ?F = "str ''```'' @ [NL] @ str ''code'' @ [NL] @ str ''```''"
  let ?G = "str ''```python'' @ [NL] @ str ''code'' @ [NL] @ str ''```''"
  from t h have c3: "idealResponseText (str ''Use:'' @ ?F) =
      str ''Use:'' @ (if str ''Use:'' \<noteq> [] \<and> last (str ''Use:'') = NL then [] else [NL]) @ ?G \<and>
    idealResponseText (idealResponseText (str ''Use:'' @ ?F)) =
      idealResponseText (str ''Use:'' @ ?F)"
    by blast
  from c3 l have 3: "idealResponseText (str ''Use:'' @ ?F) = str ''Use:'' @ [NL] @ ?G"
    by (simp only: simp_thms if_False)
  from c3 have "idealResponseText (idealResponseText (str ''Use:'' @ ?F)) =
      idealResponseText (str ''Use:'' @ ?F)"
    by (rule conjunct2)
  then have 4: "idealResponseText (str ''Use:'' @ [NL] @ ?G) = str ''Use:'' @ [NL] @ ?G"
    unfolding 3 .
  from u h have c5: "idealResponseText ([] @ ?F) =
      [] @ (if ([]::jsstring) \<noteq> [] \<and> last [] = NL then [] else [NL]) @ ?G \<and>
    idealResponseText (idealResponseText ([] @ ?F)) = idealResponseText ([] @ ?F)"
    by blast
  from c5 have 5: "idealResponseText ?F = [NL] @ ?G"
    by (simp only: append_Nil simp_thms if_False)
  from conjunct2[OF c5] have "idealResponseText (idealResponseText ?F) = idealResponseText ?F"
    unfolding append_Nil .
  then have 6: "idealResponseText ([NL] @ ?G) = [NL] @ ?G"
    unfolding 5 .
  from why_cleaned b 1 call_cleaned call_tidy 2 h 3 4 5 6 show ?thesis
    by (simp only: simp_thms)
qed

text \<open>
  Neither cleanup is idempotent on every input: the follow-up \<open>* * x\<close> loses one asterisk
  at each pass; of four backticks in a row the first pass moves three to a new line and
  the second pass splits them again; and of two fences on one line the second pass tags
  the first, which the first pass has put before a newline.
\<close>

theorem cleanup_not_idempotent:
  "followUpText (str ''* * x'') = str ''* x'' \<and>
   followUpText (followUpText (str ''* * x'')) = str ''x'' \<and>
   followUpText (followUpText (str ''* * x'')) \<noteq> followUpText (str ''* * x'') \<and>
   idealResponseText (str ''a````'') = str ''a'' @ [NL] @ str ''````'' \<and>
   idealResponseText (idealResponseText (str ''a````'')) =
     str ''a'' @ [NL] @ str ''`'' @ [NL] @ str ''```'' \<and>
   idealResponseText (idealResponseText (str ''a````'')) \<noteq> idealResponseText (str ''a````'') \<and>
   idealResponseText (str ''a ``` ```'') = str ''a '' @ [NL] @ str ''``` '' @ [NL] @ str ''```'' \<and>
   idealResponseText (idealResponseText (str ''a ``` ```'')) =
     str ''a '' @ [NL] @ str ''```python'' @ [NL] @ str ''```'' \<and>
   idealResponseText (idealResponseText (str ''a ``` ```'')) \<noteq> idealResponseText (str ''a ``` ```'')"
proof -
  have a: "followUpText (str ''* * x'') = str ''* x''"
    by (simp add: char_defs re_defs fn_defs)
  have b: "followUpText (str ''* x'') = str ''x''"
    by (simp add: char_defs re_defs fn_defs)
  have c: "idealResponseText (str ''a````'') = str ''a'' @ [NL] @ str ''````''"
    by (simp add: char_defs re_defs fn_defs)
  have d: "idealResponseText (str ''a'' @ [NL] @ str ''````'') =
             str ''a'' @ [NL] @ str ''`'' @ [NL] @ str ''```''"
    by (simp add: char_defs re_defs fn_defs)
  have f: "idealResponseText (str ''a ``` ```'') =
             str ''a '' @ [NL] @ str ''``` '' @ [NL] @ str ''```''"
    by (simp add: char_defs re_defs fn_defs)
  have g: "idealResponseText (str ''a '' @ [NL] @ str ''``` '' @ [NL] @ str ''```'') =
             str ''a '' @ [NL] @ str ''```python'' @ [NL] @ str ''```''"
    by (simp add: char_defs re_defs fn_defs)
  have e: "str ''x'' \<noteq> str ''* x''"
    "str ''a'' @ [NL] @ str ''`'' @ [NL] @ str ''```'' \<noteq> str ''a'' @ [NL] @ str ''````''"
    "str ''a '' @ [NL] @ str ''```python'' @ [NL] @ str ''```'' \<noteq>
     str ''a '' @ [NL] @ str ''``` '' @ [NL] @ str ''```''"
    by (simp_all add: str_def)
  from a b c d e f g show ?thesis by (simp only: simp_thms)
qed

end
